theory Spec2Isabelle
  imports Complex_Main "HOL-Library.Log_Nat"
begin

section \<open>ECMAScript Number values\<close>

text \<open>
  The progress callback of \<^verbatim>\<open>download\<close> and the byte counter of \<^verbatim>\<open>downloadFile\<close>
  compute with ECMAScript Numbers, that is IEEE 754 binary64 values. A Number is
  \<^verbatim>\<open>NaN\<close>, a signed infinity, or a sign bit (\<open>True\<close> is negative) with a magnitude;
  the magnitude is a non-negative rational that is representable in binary64. Both
  zeros exist: \<open>Num False 0\<close> is \<^verbatim>\<open>+0\<close> and \<open>Num True 0\<close> is \<^verbatim>\<open>-0\<close>.
\<close>

datatype jsnum = NaN | Infinity bool | Num bool rat

text \<open>Rounding to the nearest integer, ties to the even one.\<close>

definition round_half_even :: "rat \<Rightarrow> int" where
  "round_half_even x =
     (let f = \<lfloor>x\<rfloor>; d = x - of_int f
      in if d < 1 / 2 then f
         else if 1 / 2 < d then f + 1
         else if even f then f else f + 1)"

text \<open>
  \<open>ilog2 q\<close> is the binary exponent of a positive rational: \<open>2 powi ilog2 q \<le> q\<close> and
  \<open>q < 2 powi (ilog2 q + 1)\<close>.
\<close>

definition ilog2 :: "rat \<Rightarrow> int" where
  "ilog2 q = (if 1 \<le> q then bitlen \<lfloor>q\<rfloor> - 1 else - bitlen (\<lceil>1 / q\<rceil> - 1))"

text \<open>
  The exponent of the unit in the last place of the binary64 format at \<open>q\<close>: 53
  significant bits, and the fixed spacing \<open>2 powi (-1074)\<close> in the subnormal range.
\<close>

definition ulp_exp :: "rat \<Rightarrow> int" where
  "ulp_exp q = max (ilog2 q) (- 1022) - 52"

text \<open>
  Round a non-negative magnitude to the nearest multiple of its unit in the last
  place, ties to the even multiple.
\<close>

definition round_to_ulp :: "rat \<Rightarrow> rat" where
  "round_to_ulp q = of_int (round_half_even (q / 2 powi ulp_exp q)) * 2 powi ulp_exp q"

text \<open>
  Round a non-negative magnitude to binary64. \<open>None\<close> is overflow: the rounded value
  would be \<open>2 ^ 1024\<close> or more.
\<close>

definition to_double :: "rat \<Rightarrow> rat option" where
  "to_double q = (let v = round_to_ulp q in if 2 ^ 1024 \<le> v then None else Some v)"

definition fl :: "bool \<Rightarrow> rat \<Rightarrow> jsnum" where
  "fl s q = (case to_double q of None \<Rightarrow> Infinity s | Some m \<Rightarrow> Num s m)"

definition val :: "bool \<Rightarrow> rat \<Rightarrow> rat" where
  "val s m = (if s then - m else m)"

text \<open>The Number operators \<^verbatim>\<open>+\<close>, unary \<^verbatim>\<open>-\<close>, binary \<^verbatim>\<open>-\<close>, \<^verbatim>\<open>*\<close> and \<^verbatim>\<open>/\<close>.\<close>

fun js_add :: "jsnum \<Rightarrow> jsnum \<Rightarrow> jsnum" where
  "js_add NaN _ = NaN"
| "js_add _ NaN = NaN"
| "js_add (Infinity s) (Infinity t) = (if s = t then Infinity s else NaN)"
| "js_add (Infinity s) (Num _ _) = Infinity s"
| "js_add (Num _ _) (Infinity t) = Infinity t"
| "js_add (Num s a) (Num t b) =
     (let r = val s a + val t b
      in if r = 0 then Num (s \<and> t) 0 else fl (r < 0) \<bar>r\<bar>)"

fun js_neg :: "jsnum \<Rightarrow> jsnum" where
  "js_neg NaN = NaN"
| "js_neg (Infinity s) = Infinity (\<not> s)"
| "js_neg (Num s a) = Num (\<not> s) a"

definition js_sub :: "jsnum \<Rightarrow> jsnum \<Rightarrow> jsnum" where
  "js_sub x y = js_add x (js_neg y)"

fun js_mul :: "jsnum \<Rightarrow> jsnum \<Rightarrow> jsnum" where
  "js_mul NaN _ = NaN"
| "js_mul _ NaN = NaN"
| "js_mul (Infinity s) (Infinity t) = Infinity (s \<noteq> t)"
| "js_mul (Infinity s) (Num t b) = (if b = 0 then NaN else Infinity (s \<noteq> t))"
| "js_mul (Num s a) (Infinity t) = (if a = 0 then NaN else Infinity (s \<noteq> t))"
| "js_mul (Num s a) (Num t b) = fl (s \<noteq> t) (a * b)"

fun js_div :: "jsnum \<Rightarrow> jsnum \<Rightarrow> jsnum" where
  "js_div NaN _ = NaN"
| "js_div _ NaN = NaN"
| "js_div (Infinity s) (Infinity t) = NaN"
| "js_div (Infinity s) (Num t b) = Infinity (s \<noteq> t)"
| "js_div (Num s a) (Infinity t) = Num (s \<noteq> t) 0"
| "js_div (Num s a) (Num t b) =
     (if b = 0 then (if a = 0 then NaN else Infinity (s \<noteq> t))
      else fl (s \<noteq> t) (a / b))"

text \<open>
  \<^verbatim>\<open>Math.round\<close>: the integer closest to the argument, the larger one on a tie. The
  result keeps the sign bit of the argument, so a negative argument that rounds to
  zero gives \<^verbatim>\<open>-0\<close>.
\<close>

fun Math_round :: "jsnum \<Rightarrow> jsnum" where
  "Math_round NaN = NaN"
| "Math_round (Infinity s) = Infinity s"
| "Math_round (Num False a) = Num False (of_int \<lfloor>a + 1 / 2\<rfloor>)"
| "Math_round (Num True a) = Num True (of_int \<lceil>a - 1 / 2\<rceil>)"


text \<open>
  Strict inequality \<^verbatim>\<open>!==\<close> on Numbers: \<^verbatim>\<open>NaN\<close> differs from everything, itself
  included, and the two zeros are equal.
\<close>

fun strict_ne :: "jsnum \<Rightarrow> jsnum \<Rightarrow> bool" where
  "strict_ne NaN _ = True"
| "strict_ne _ NaN = True"
| "strict_ne (Infinity s) (Infinity t) = (s \<noteq> t)"
| "strict_ne (Infinity _) (Num _ _) = True"
| "strict_ne (Num _ _) (Infinity _) = True"
| "strict_ne (Num s a) (Num t b) = (val s a \<noteq> val t b)"

text \<open>The relational operator \<^verbatim>\<open><\<close> on Numbers; every comparison with \<^verbatim>\<open>NaN\<close> is false.\<close>

fun js_lt :: "jsnum \<Rightarrow> jsnum \<Rightarrow> bool" where
  "js_lt NaN _ = False"
| "js_lt _ NaN = False"
| "js_lt (Infinity s) (Infinity t) = (s \<and> \<not> t)"
| "js_lt (Infinity s) (Num _ _) = s"
| "js_lt (Num _ _) (Infinity t) = (\<not> t)"
| "js_lt (Num s a) (Num t b) = (val s a < val t b)"

text \<open>The relational operator \<^verbatim>\<open><=\<close> on Numbers.\<close>

fun js_le :: "jsnum \<Rightarrow> jsnum \<Rightarrow> bool" where
  "js_le NaN _ = False"
| "js_le _ NaN = False"
| "js_le (Infinity s) (Infinity t) = (s \<or> \<not> t)"
| "js_le (Infinity s) (Num _ _) = s"
| "js_le (Num _ _) (Infinity t) = (\<not> t)"
| "js_le (Num s a) (Num t b) = (val s a \<le> val t b)"

text \<open>
  Two sets of Numbers used to state the results: the non-negative ones (\<^verbatim>\<open>+0\<close>, the
  positive finite ones and \<^verbatim>\<open>+Infinity\<close>), and the byte counts, which are non-negative
  and are either \<^verbatim>\<open>+Infinity\<close> or a magnitude that binary64 represents.
\<close>

definition nonneg :: "jsnum \<Rightarrow> bool" where
  "nonneg x = (case x of NaN \<Rightarrow> False | Infinity s \<Rightarrow> \<not> s | Num s a \<Rightarrow> \<not> s \<and> 0 \<le> a)"

definition byte_count :: "jsnum \<Rightarrow> bool" where
  "byte_count x =
     (case x of NaN \<Rightarrow> False | Infinity s \<Rightarrow> \<not> s
      | Num s a \<Rightarrow> \<not> s \<and> 0 \<le> a \<and> round_to_ulp a = a)"

definition pos_count :: "jsnum \<Rightarrow> bool" where
  "pos_count x = (byte_count x \<and> js_lt (Num False 0) x)"

section \<open>The progress callback of \<^verbatim>\<open>download\<close>\<close>

text \<open>
  One call of \<^verbatim>\<open>progress.report\<close>. The source passes the message
  \<^verbatim>\<open>`${newPercentage.toFixed(0)}%`\<close> and the increment; the record keeps the number that
  the message renders, not its text.
\<close>

record report =
  percentage :: jsnum
  increment :: jsnum

text \<open>
  The state the callback closes over: the variable \<^verbatim>\<open>lastPercentage\<close> and the reports
  received by the progress sink so far, oldest first.
\<close>

record progress_state =
  lastPercentage :: jsnum
  reported :: "report list"

definition initial_progress :: progress_state where
  "initial_progress = \<lparr>lastPercentage = Num False 0, reported = []\<rparr>"

definition newPercentage :: "jsnum \<Rightarrow> jsnum \<Rightarrow> jsnum" where
  "newPercentage readBytes totalBytes =
     Math_round (js_mul (js_div readBytes totalBytes) (Num False 100))"

definition report_progress :: "jsnum \<Rightarrow> jsnum \<Rightarrow> progress_state \<Rightarrow> progress_state" where
  "report_progress readBytes totalBytes st =
     (let p = newPercentage readBytes totalBytes
      in if strict_ne p (lastPercentage st)
         then \<lparr>lastPercentage = p,
               reported = reported st @
                 [\<lparr>percentage = p, increment = js_sub p (lastPercentage st)\<rparr>]\<rparr>
         else st)"

text \<open>
  The \<^verbatim>\<open>"data"\<close> handler of \<^verbatim>\<open>downloadFile\<close>, run over the chunks of the body in order of
  arrival: it adds the length of the chunk to \<^verbatim>\<open>readBytes\<close> and calls the callback.
  A chunk is the list of its bytes; the length of a \<^verbatim>\<open>Buffer\<close> is an integer below
  \<open>2 ^ 53\<close>, which binary64 represents exactly.
\<close>

type_synonym chunk = "nat list"

fun on_data ::
  "(jsnum \<Rightarrow> jsnum \<Rightarrow> 's \<Rightarrow> 's) \<Rightarrow> jsnum \<Rightarrow> chunk list \<Rightarrow> jsnum \<times> 's \<Rightarrow> jsnum \<times> 's" where
  "on_data cb totalBytes [] (readBytes, st) = (readBytes, st)"
| "on_data cb totalBytes (c # cs) (readBytes, st) =
     (let readBytes' = js_add readBytes (Num False (of_nat (length c)))
      in on_data cb totalBytes cs (readBytes', cb readBytes' totalBytes st))"

section \<open>Strings and their conversion to Numbers\<close>

text \<open>
  A string is the list of its code units. The values of HTTP headers and the names
  handled here are strings of code units below 256.
\<close>

definition digit_char :: "nat \<Rightarrow> char" where
  "digit_char d = ''0123456789'' ! d"

text \<open>The decimal text of a natural number, as a template literal renders it.\<close>

function dec :: "nat \<Rightarrow> string" where
  "dec n = (if n < 10 then [digit_char n] else dec (n div 10) @ [digit_char (n mod 10)])"
  by pat_completeness auto
termination
  by (relation "measure id") auto

declare dec.simps [simp del]

text \<open>\<^verbatim>\<open>String.prototype.includes\<close>: the pattern occurs in the string as a block.\<close>

fun starts_with :: "string \<Rightarrow> string \<Rightarrow> bool" where
  "starts_with [] s = True"
| "starts_with (p # ps) [] = False"
| "starts_with (p # ps) (c # cs) = (p = c \<and> starts_with ps cs)"

fun str_includes :: "string \<Rightarrow> string \<Rightarrow> bool" where
  "str_includes [] pat = (pat = [])"
| "str_includes (c # cs) pat = (starts_with pat (c # cs) \<or> str_includes cs pat)"

text \<open>
  \<^verbatim>\<open>Number(value)\<close> for a value that is a string or \<^verbatim>\<open>null\<close>. White space and line
  terminators below 256 are TAB, LF, VT, FF, CR, SP and NBSP.
\<close>

definition is_space :: "char \<Rightarrow> bool" where
  "is_space c = ((of_char c :: nat) \<in> {9, 10, 11, 12, 13, 32, 160})"

definition trim :: "string \<Rightarrow> string" where
  "trim s = rev (dropWhile is_space (rev (dropWhile is_space s)))"

definition digit_of :: "nat \<Rightarrow> char \<Rightarrow> nat option" where
  "digit_of radix c =
     (let n = (of_char c :: nat);
          d = (if 48 \<le> n \<and> n \<le> 57 then Some (n - 48)
               else if 97 \<le> n \<and> n \<le> 102 then Some (n - 87)
               else if 65 \<le> n \<and> n \<le> 70 then Some (n - 55)
               else None)
      in case d of None \<Rightarrow> None | Some v \<Rightarrow> if v < radix then Some v else None)"

definition is_digit :: "char \<Rightarrow> bool" where
  "is_digit c = (digit_of 10 c \<noteq> None)"

definition digits_value :: "nat \<Rightarrow> string \<Rightarrow> nat" where
  "digits_value radix ds = foldl (\<lambda>a c. a * radix + the (digit_of radix c)) 0 ds"

text \<open>The digits after \<^verbatim>\<open>0x\<close>, \<^verbatim>\<open>0o\<close> or \<^verbatim>\<open>0b\<close>: at least one, all of the radix.\<close>

definition non_decimal :: "nat \<Rightarrow> string \<Rightarrow> jsnum" where
  "non_decimal radix ds =
     (if ds \<noteq> [] \<and> list_all (\<lambda>c. digit_of radix c \<noteq> None) ds
      then fl False (of_nat (digits_value radix ds)) else NaN)"

text \<open>The exponent part of a decimal literal; the empty text is the exponent 0.\<close>

definition exponent_part :: "string \<Rightarrow> int option" where
  "exponent_part s =
     (case s of
        [] \<Rightarrow> Some 0
      | c # r \<Rightarrow>
          if c = CHR ''e'' \<or> c = CHR ''E'' then
            (let neg = (r \<noteq> [] \<and> hd r = CHR ''-'');
                 ds = (if r \<noteq> [] \<and> (hd r = CHR ''+'' \<or> hd r = CHR ''-'') then tl r else r)
             in if ds \<noteq> [] \<and> list_all is_digit ds
                then Some (if neg then - int (digits_value 10 ds) else int (digits_value 10 ds))
                else None)
          else None)"

text \<open>
  An unsigned decimal literal with the sign bit read before it: \<^verbatim>\<open>Infinity\<close>, or digits
  with an optional fraction and an optional exponent, at least one digit before or
  after the point.
\<close>

definition str_decimal :: "bool \<Rightarrow> string \<Rightarrow> jsnum" where
  "str_decimal neg s =
     (if s = ''Infinity'' then Infinity neg
      else
        let ip = takeWhile is_digit s;
            r1 = dropWhile is_digit s;
            dot = (r1 \<noteq> [] \<and> hd r1 = CHR ''.'');
            fp = (if dot then takeWhile is_digit (tl r1) else []);
            r2 = (if dot then dropWhile is_digit (tl r1) else r1)
        in if ip = [] \<and> fp = [] then NaN
           else case exponent_part r2 of
                  None \<Rightarrow> NaN
                | Some e \<Rightarrow>
                    fl neg (of_nat (digits_value 10 (ip @ fp)) * 10 powi (e - int (length fp))))"

definition StringToNumber :: "string \<Rightarrow> jsnum" where
  "StringToNumber str =
     (let s = trim str
      in if s = [] then Num False 0
         else if take 2 s = ''0x'' \<or> take 2 s = ''0X'' then non_decimal 16 (drop 2 s)
         else if take 2 s = ''0o'' \<or> take 2 s = ''0O'' then non_decimal 8 (drop 2 s)
         else if take 2 s = ''0b'' \<or> take 2 s = ''0B'' then non_decimal 2 (drop 2 s)
         else if hd s = CHR ''+'' then str_decimal False (tl s)
         else if hd s = CHR ''-'' then str_decimal True (tl s)
         else str_decimal False s)"

definition Number :: "string option \<Rightarrow> jsnum" where
  "Number v = (case v of None \<Rightarrow> Num False 0 | Some s \<Rightarrow> StringToNumber s)"

text \<open>A string or \<^verbatim>\<open>null\<close> in a condition: only a non-empty string is truthy.\<close>

definition truthy :: "string option \<Rightarrow> bool" where
  "truthy v = (case v of None \<Rightarrow> False | Some s \<Rightarrow> s \<noteq> [])"

section \<open>Collaborators\<close>

text \<open>
  Errors: \<open>Error\<close> is \<^verbatim>\<open>new Error(message)\<close> thrown by this module,
  \<open>ProtocolInvariantError\<close> is a failed assertion, and \<open>External\<close> is any error raised by
  a collaborator (the HTTP client, the streams, the JSON decoder).
\<close>

datatype error = Error string | ProtocolInvariantError string | External string

text \<open>
  Modelled from the spec: the function \<^verbatim>\<open>assert\<close> of the module \<^verbatim>\<open>./util\<close>, whose source
  is not part of the material. A failed check of the content length makes the
  operation fail with a \<^verbatim>\<open>ProtocolInvariantError\<close>.
\<close>

definition assert :: "bool \<Rightarrow> string \<Rightarrow> error + unit" where
  "assert condition explanation =
     (if condition then Inr () else Inl (ProtocolInvariantError explanation))"

text \<open>
  Modelled from the spec: the logger \<^verbatim>\<open>log\<close> of the module \<^verbatim>\<open>./util\<close>, a structured
  logger accepting leveled diagnostic records (debug, info, error) with arbitrary
  structured payloads. A record is its level and the list of its arguments.
\<close>

datatype log_arg =
    LStr string
  | LNat nat
  | LNum jsnum
  | LHeaders "(string \<times> string) list"
  | LObj "(string \<times> log_arg) list"

datatype level = Debug | Info | Err

type_synonym log_record = "level \<times> log_arg list"

text \<open>
  An error of \<^verbatim>\<open>vscode.workspace.fs\<close>: its \<^verbatim>\<open>code\<close>, if it has one, and the text that
  \<^verbatim>\<open>`${err}`\<close> renders.
\<close>

record fs_error =
  code :: "string option"
  rendering :: string

text \<open>
  A \<^verbatim>\<open>vscode.Uri\<close>, seen through the two accessors the module uses.
\<close>

record uri =
  fsPath :: string
  toString :: string

text \<open>The object returned by \<^verbatim>\<open>path.parse\<close>.\<close>

record parsed_path =
  root :: string
  dir :: string
  base :: string
  ext :: string
  name :: string

text \<open>
  The response of \<^verbatim>\<open>fetch\<close>: the status, the headers (names in lower case), what
  \<^verbatim>\<open>text()\<close> and \<^verbatim>\<open>json()\<close> resolve to, and the chunks that the body emits as
  \<^verbatim>\<open>"data"\<close> events while it is piped. \<open>'j\<close> is the type of decoded JSON values.
\<close>

record 'j response =
  status :: nat
  headers :: "(string \<times> string) list"
  body_text :: "error + string"
  body_json :: "error + 'j"
  body_chunks :: "chunk list"

definition ok :: "'j response \<Rightarrow> bool" where
  "ok res = (200 \<le> status res \<and> status res < 300)"

definition headers_get :: "(string \<times> string) list \<Rightarrow> string \<Rightarrow> string option" where
  "headers_get hs k = map_of hs k"

text \<open>
  The second argument of \<^verbatim>\<open>fetch\<close>: the request headers and the agent; \<open>Some p\<close> is
  \<^verbatim>\<open>new HttpsProxyAgent(p)\<close> and \<open>None\<close> is the default agent, that is the direct
  transport.
\<close>

record request_init =
  request_headers :: "(string \<times> string) list"
  agent :: "string option"

text \<open>
  The platform under the module: the HTTP client, the stream pipeline into a file
  (with the gunzip stage when the flag is set), the file system of the workspace,
  \<^verbatim>\<open>path.parse\<close> and the constructors of \<^verbatim>\<open>vscode.Uri\<close>. \<open>'fs\<close> is the state of the file
  system. Every operation that can fail returns its error as a value; an operation
  on the file system returns the state it leaves behind as well.
\<close>

record ('fs, 'j) platform =
  fetch :: "string \<Rightarrow> request_init \<Rightarrow> error + 'j response"
  pipeline :: "bool \<Rightarrow> chunk list \<Rightarrow> string \<Rightarrow> nat option \<Rightarrow> 'fs \<Rightarrow> error option \<times> 'fs"
  fs_rename :: "uri \<Rightarrow> uri \<Rightarrow> bool \<Rightarrow> 'fs \<Rightarrow> fs_error option \<times> 'fs"
  fs_readDirectory :: "uri \<Rightarrow> 'fs \<Rightarrow> fs_error + (string \<times> nat) list"
  fs_delete :: "uri \<Rightarrow> 'fs \<Rightarrow> fs_error option \<times> 'fs"
  path_parse :: "string \<Rightarrow> parsed_path"
  Uri_file :: "string \<Rightarrow> uri"
  Uri_joinPath :: "uri \<Rightarrow> string \<Rightarrow> uri"

text \<open>
  What the module acts on: the file system, the log, and the progress notifications
  shown so far, each with its title and the reports it received.
\<close>

record 'fs world =
  fs :: 'fs
  logged :: "log_record list"
  notifications :: "(string \<times> report list) list"

definition log_debug :: "log_arg list \<Rightarrow> 'fs world \<Rightarrow> 'fs world" where
  "log_debug args w = w\<lparr>logged := logged w @ [(Debug, args)]\<rparr>"

definition log_info :: "log_arg list \<Rightarrow> 'fs world \<Rightarrow> 'fs world" where
  "log_info args w = w\<lparr>logged := logged w @ [(Info, args)]\<rparr>"

definition log_error :: "log_arg list \<Rightarrow> 'fs world \<Rightarrow> 'fs world" where
  "log_error args w = w\<lparr>logged := logged w @ [(Err, args)]\<rparr>"

section \<open>\<^verbatim>\<open>fetchRelease\<close>\<close>

definition GITHUB_API_ENDPOINT_URL :: string where
  "GITHUB_API_ENDPOINT_URL = ''https://api.github.com''"

definition OWNER :: string where
  "OWNER = ''rust-analyzer''"

definition REPO :: string where
  "REPO = ''rust-analyzer''"

definition fetchRelease ::
  "('fs, 'j) platform \<Rightarrow> string \<Rightarrow> string option \<Rightarrow> string option \<Rightarrow> 'fs world
     \<Rightarrow> (error + 'j) \<times> 'fs world" where
  "fetchRelease P releaseTag githubToken httpProxy w =
     (let apiEndpointPath = ''/repos/'' @ OWNER @ ''/'' @ REPO @ ''/releases/tags/'' @ releaseTag;
          requestUrl = GITHUB_API_ENDPOINT_URL @ apiEndpointPath;
          w1 = log_debug [LStr ''Issuing request for released artifacts metadata to'', LStr requestUrl] w;
          hs = [(''Accept'', ''application/vnd.github.v3+json'')] @
               (case githubToken of None \<Rightarrow> []
                | Some t \<Rightarrow> [(''Authorization'', ''token '' @ t)]);
          (w2, result) =
            (if truthy httpProxy
             then (log_debug [LStr (''Fetching release metadata via proxy: '' @ the httpProxy)] w1,
                   fetch P requestUrl \<lparr>request_headers = hs, agent = httpProxy\<rparr>)
             else (w1, fetch P requestUrl \<lparr>request_headers = hs, agent = None\<rparr>))
      in case result of
           Inl e \<Rightarrow> (Inl e, w2)
         | Inr response \<Rightarrow>
             if \<not> ok response then
               (case body_text response of
                  Inl e \<Rightarrow> (Inl e, w2)
                | Inr b \<Rightarrow>
                    (Inl (Error (''Got response '' @ dec (status response) @
                            '' when trying to fetch '' @
                            ''release info for '' @ releaseTag @ '' release'')),
                     log_error
                       [LStr ''Error fetching artifact release info'',
                        LObj [(''requestUrl'', LStr requestUrl),
                             (''releaseTag'', LStr releaseTag),
                             (''response'',
                              LObj [(''headers'', LHeaders (headers response)),
                                   (''status'', LNat (status response)),
                                   (''body'', LStr b)])]] w2))
             else (case body_json response of
                     Inl e \<Rightarrow> (Inl e, w2)
                   | Inr release \<Rightarrow> (Inr release, w2)))"

section \<open>\<^verbatim>\<open>downloadFile\<close>\<close>

text \<open>
  The function takes the progress callback and the state that the callback closes
  over, and returns that state with the outcome. The last lines of the source, which
  wait for the \<^verbatim>\<open>close\<close> event of the file stream on old versions of the runtime, leave
  the outcome and the state as they are.
\<close>

definition downloadFile ::
  "('fs, 'j) platform \<Rightarrow> uri \<Rightarrow> uri \<Rightarrow> nat option \<Rightarrow> bool \<Rightarrow> string option
     \<Rightarrow> (jsnum \<Rightarrow> jsnum \<Rightarrow> 's \<Rightarrow> 's) \<Rightarrow> 's \<Rightarrow> 'fs world
     \<Rightarrow> (error + unit) \<times> 's \<times> 'fs world" where
  "downloadFile P url destFilePath mode gunzip httpProxy onProgress st w =
     (let urlString = toString url;
          (w1, result) =
            (if truthy httpProxy
             then (log_debug [LStr (''Downloading '' @ urlString @ '' via proxy: '' @ the httpProxy)] w,
                   fetch P urlString \<lparr>request_headers = [], agent = httpProxy\<rparr>)
             else (w, fetch P urlString \<lparr>request_headers = [], agent = None\<rparr>))
      in case result of
           Inl e \<Rightarrow> (Inl e, st, w1)
         | Inr res \<Rightarrow>
             if \<not> ok res then
               (let w2 = log_error [LStr ''Error'', LNat (status res),
                                    LStr ''while downloading file from'', LStr urlString] w1
                in case body_text res of
                     Inl e \<Rightarrow> (Inl e, st, w2)
                   | Inr b \<Rightarrow>
                       (Inl (Error (''Got response '' @ dec (status res) @
                               '' when trying to download a file.'')),
                        st,
                        log_error [LObj [(''body'', LStr b), (''headers'', LHeaders (headers res))]] w2))
             else
               (let totalBytes = Number (headers_get (headers res) ''content-length'')
                in case assert (totalBytes \<noteq> NaN) ''Sanity check of content-length protocol'' of
                     Inl e \<Rightarrow> (Inl e, st, w1)
                   | Inr _ \<Rightarrow>
                       (let w2 = log_debug [LStr ''Downloading file of'', LNum totalBytes,
                                            LStr ''bytes size from'', LStr urlString,
                                            LStr ''to'', LStr (fsPath destFilePath)] w1;
                            (readBytes, st') =
                              on_data onProgress totalBytes (body_chunks res) (Num False 0, st);
                            (failure, fs') =
                              pipeline P gunzip (body_chunks res) (fsPath destFilePath) mode (fs w2);
                            w3 = w2\<lparr>fs := fs'\<rparr>
                        in case failure of
                             Some e \<Rightarrow> (Inl e, st', w3)
                           | None \<Rightarrow> (Inr (), st', w3))))"

section \<open>\<^verbatim>\<open>download\<close>\<close>

record DownloadOpts =
  progressTitle :: string
  url :: uri
  dest :: uri
  mode :: "nat option"
  gunzip :: "bool option"
  httpProxy :: "string option"

text \<open>
  The two paths derived from the destination. \<open>randomHex\<close> is the value of
  \<^verbatim>\<open>crypto.randomBytes(5).toString("hex")\<close>, ten hexadecimal digits.
\<close>

definition rawDest :: "('fs, 'j) platform \<Rightarrow> DownloadOpts \<Rightarrow> parsed_path" where
  "rawDest P opts = path_parse P (fsPath (dest opts))"

definition oldServerPath :: "('fs, 'j) platform \<Rightarrow> string \<Rightarrow> DownloadOpts \<Rightarrow> uri" where
  "oldServerPath P randomHex opts =
     Uri_joinPath P (Uri_file P (dir (rawDest P opts)))
       (name (rawDest P opts) @ ''-stale-'' @ randomHex @ ext (rawDest P opts))"

definition tempFilePath :: "('fs, 'j) platform \<Rightarrow> string \<Rightarrow> DownloadOpts \<Rightarrow> uri" where
  "tempFilePath P randomHex opts =
     Uri_joinPath P (Uri_file P (dir (rawDest P opts))) (name (rawDest P opts) @ randomHex)"

text \<open>The first \<^verbatim>\<open>try\<close> block: move the installed file out of the way.\<close>

definition rename_old ::
  "('fs, 'j) platform \<Rightarrow> uri \<Rightarrow> uri \<Rightarrow> 'fs world \<Rightarrow> 'fs world" where
  "rename_old P destination old w =
     (case fs_rename P destination old True (fs w) of
        (None, fs') \<Rightarrow>
          log_info [LStr (''Renamed old server binary '' @ fsPath destination @ '' to '' @ fsPath old)]
            (w\<lparr>fs := fs'\<rparr>)
      | (Some err, fs') \<Rightarrow>
          if \<not> truthy (code err) \<or>
             (code err \<noteq> Some ''FileNotFound'' \<and> code err \<noteq> Some ''EntryNotFound'')
          then log_error [LStr (''Cannot rename existing server instance: '' @ rendering err)]
                 (w\<lparr>fs := fs'\<rparr>)
          else w\<lparr>fs := fs'\<rparr>)"

text \<open>The second \<^verbatim>\<open>try\<close> block: move the downloaded file to the destination.\<close>

definition rename_new ::
  "('fs, 'j) platform \<Rightarrow> uri \<Rightarrow> uri \<Rightarrow> 'fs world \<Rightarrow> 'fs world" where
  "rename_new P temp destination w =
     (case fs_rename P temp destination True (fs w) of
        (None, fs') \<Rightarrow> w\<lparr>fs := fs'\<rparr>
      | (Some err, fs') \<Rightarrow>
          log_error [LStr (''Cannot update server binary: '' @ rendering err)] (w\<lparr>fs := fs'\<rparr>))"

text \<open>
  The body of the loop over the entries of the directory, for one entry:
  \<open>delete_entry\<close> is the inner \<^verbatim>\<open>try\<close> block, reached when the name passes the test.
\<close>

definition delete_entry ::
  "('fs, 'j) platform \<Rightarrow> uri \<Rightarrow> string \<Rightarrow> 'fs world \<Rightarrow> 'fs world" where
  "delete_entry P serverDir entry w =
     (let u = Uri_joinPath P serverDir entry
      in case fs_delete P u (fs w) of
           (None, fs') \<Rightarrow> log_info [LStr (''Removed old server binary '' @ fsPath u)] (w\<lparr>fs := fs'\<rparr>)
         | (Some err, fs') \<Rightarrow>
             log_error [LStr (''Unable to remove old server binary '' @ fsPath u)] (w\<lparr>fs := fs'\<rparr>))"

definition remove_entry ::
  "('fs, 'j) platform \<Rightarrow> uri \<Rightarrow> string \<Rightarrow> string \<Rightarrow> 'fs world \<Rightarrow> 'fs world" where
  "remove_entry P serverDir stem entry w =
     (if str_includes entry (stem @ ''-stale-'') then delete_entry P serverDir entry w else w)"

fun remove_entries ::
  "('fs, 'j) platform \<Rightarrow> uri \<Rightarrow> string \<Rightarrow> (string \<times> nat) list \<Rightarrow> 'fs world \<Rightarrow> 'fs world" where
  "remove_entries P serverDir stem [] w = w"
| "remove_entries P serverDir stem ((entry, _) # entries) w =
     remove_entries P serverDir stem entries (remove_entry P serverDir stem entry w)"

text \<open>The third \<^verbatim>\<open>try\<close> block: remove the stale files of the directory.\<close>

definition remove_stale ::
  "('fs, 'j) platform \<Rightarrow> DownloadOpts \<Rightarrow> 'fs world \<Rightarrow> 'fs world" where
  "remove_stale P opts w =
     (let serverDir = Uri_file P (dir (rawDest P opts))
      in case fs_readDirectory P serverDir (fs w) of
           Inl err \<Rightarrow> log_error [LStr (''Unable to enumerate contents of '' @ fsPath serverDir)] w
         | Inr entries \<Rightarrow> remove_entries P serverDir (name (rawDest P opts)) entries w)"

definition download ::
  "('fs, 'j) platform \<Rightarrow> string \<Rightarrow> DownloadOpts \<Rightarrow> 'fs world \<Rightarrow> (error + unit) \<times> 'fs world" where
  "download P randomHex opts w =
     (let (result, st, w1) =
            downloadFile P (url opts) (tempFilePath P randomHex opts) (mode opts)
              (gunzip opts = Some True) (httpProxy opts) report_progress initial_progress w;
          w2 = w1\<lparr>notifications := notifications w1 @ [(progressTitle opts, reported st)]\<rparr>
      in case result of
           Inl e \<Rightarrow> (Inl e, w2)
         | Inr _ \<Rightarrow>
             (Inr (),
              remove_stale P opts
                (rename_new P (tempFilePath P randomHex opts) (dest opts)
                   (rename_old P (dest opts) (oldServerPath P randomHex opts) w2))))"

section \<open>Notions used to state the results\<close>


text \<open>
  The percentages that the callback computes during a download, one for each chunk,
  reported or not: the \<^verbatim>\<open>"data"\<close> handler run with a callback that records them.
\<close>

definition computed_percentages :: "jsnum \<Rightarrow> chunk list \<Rightarrow> jsnum list" where
  "computed_percentages totalBytes chunks =
     snd (on_data (\<lambda>readBytes totalBytes acc. acc @ [newPercentage readBytes totalBytes])
            totalBytes chunks (Num False 0, []))"

definition percents :: "nat list \<Rightarrow> jsnum list" where
  "percents ks = map (\<lambda>k. Num False (of_nat k)) ks"

text \<open>An integer-valued percentage between 0 and \<open>2 ^ 53\<close>.\<close>

definition int_pct :: "jsnum \<Rightarrow> bool" where
  "int_pct x = (\<exists>k. 0 \<le> k \<and> k \<le> 2 ^ 53 \<and> x = Num False (of_int k))"

text \<open>
  The increments received by the sink add up, with the Number addition, to the last
  percentage, which is the percentage of the last report if there is one.
\<close>

definition sums_up :: "progress_state \<Rightarrow> bool" where
  "sums_up st =
     (foldl js_add (Num False 0) (map increment (reported st)) = lastPercentage st
      \<and> (reported st = [] \<or> percentage (last (reported st)) = lastPercentage st))"

text \<open>
  The same computation on natural numbers, for a total of 1048576 bytes: the running
  totals of the bytes read, the percentage of a total, and the percentages that pass
  the comparison with the last reported one.
\<close>

fun totals :: "nat \<Rightarrow> chunk list \<Rightarrow> nat list" where
  "totals s [] = []"
| "totals s (c # cs) = (s + length c) # totals (s + length c) cs"

fun emit :: "nat \<Rightarrow> nat list \<Rightarrow> nat list" where
  "emit l [] = []"
| "emit l (k # ks) = (if k \<noteq> l then k # emit k ks else emit l ks)"

definition pct1 :: "nat \<Rightarrow> nat" where
  "pct1 s = (200 * s + 1048576) div 2097152"

text \<open>
  A payload of 1048576 bytes in 101 chunks: one byte, then chunks that move the
  count to each multiple of 10486 bytes up to 99 times 10486, then the rest. The
  count passes every integer percentage from 0 to 100.
\<close>

definition chunks_1MiB :: "chunk list" where
  "chunks_1MiB =
     [[0]] @ [replicate 10485 0] @ replicate 98 (replicate 10486 0) @ [replicate 10462 0]"


section \<open>A platform to run the module on\<close>

text \<open>
  \<^verbatim>\<open>path.parse\<close> of the POSIX flavour of the \<^verbatim>\<open>path\<close> module: trailing slashes are
  dropped, the base is the last component, and the extension starts at the last dot
  of the base unless that dot is its first character or the base is \<^verbatim>\<open>..\<close>.
\<close>

definition posix_parse :: "string \<Rightarrow> parsed_path" where
  "posix_parse p =
     (if p = [] then \<lparr>root = [], dir = [], base = [], ext = [], name = []\<rparr>
      else
        let isAbsolute = (hd p = CHR ''/'');
            body = (if isAbsolute then tl p else p);
            kept = rev (dropWhile (\<lambda>c. c = CHR ''/'') (rev body));
            b = rev (takeWhile (\<lambda>c. c \<noteq> CHR ''/'') (rev kept));
            startPart = (if isAbsolute then 1 else 0) + length kept - length b;
            d = (if length b < length kept then take (startPart - 1) p
                 else if isAbsolute then ''/'' else []);
            startDot = length b - 1 - length (takeWhile (\<lambda>c. c \<noteq> CHR ''.'') (rev b));
            noExt = (CHR ''.'' \<notin> set b \<or> startDot = 0 \<or> b = ''..'')
        in \<lparr>root = (if isAbsolute then ''/'' else []),
            dir = d,
            base = b,
            ext = (if noExt then [] else drop startDot b),
            name = (if noExt then b else take startDot b)\<rparr>)"

text \<open>
  A file system in memory: the files with their contents, and the paths that refuse
  every change (a file that is in use, a directory without permissions).
\<close>

record files_state =
  files :: "(string \<times> nat list) list"
  locked :: "string list"

definition no_permissions :: fs_error where
  "no_permissions = \<lparr>code = Some ''NoPermissions'', rendering = ''NoPermissions (FileSystemError)''\<rparr>"

definition file_not_found :: fs_error where
  "file_not_found = \<lparr>code = Some ''FileNotFound'', rendering = ''FileNotFound (FileSystemError)''\<rparr>"

definition file_exists :: fs_error where
  "file_exists = \<lparr>code = Some ''FileExists'', rendering = ''FileExists (FileSystemError)''\<rparr>"

definition without :: "string \<Rightarrow> (string \<times> nat list) list \<Rightarrow> (string \<times> nat list) list" where
  "without p entries = filter (\<lambda>e. fst e \<noteq> p) entries"

definition mem_rename :: "uri \<Rightarrow> uri \<Rightarrow> bool \<Rightarrow> files_state \<Rightarrow> fs_error option \<times> files_state" where
  "mem_rename src dst overwrite st =
     (if fsPath src \<in> set (locked st) \<or> fsPath dst \<in> set (locked st)
      then (Some no_permissions, st)
      else case map_of (files st) (fsPath src) of
             None \<Rightarrow> (Some file_not_found, st)
           | Some content \<Rightarrow>
               if \<not> overwrite \<and> map_of (files st) (fsPath dst) \<noteq> None
               then (Some file_exists, st)
               else (None, st\<lparr>files := (fsPath dst, content) #
                                  without (fsPath dst) (without (fsPath src) (files st))\<rparr>))"

definition mem_delete :: "uri \<Rightarrow> files_state \<Rightarrow> fs_error option \<times> files_state" where
  "mem_delete u st =
     (if fsPath u \<in> set (locked st) then (Some no_permissions, st)
      else if map_of (files st) (fsPath u) = None then (Some file_not_found, st)
      else (None, st\<lparr>files := without (fsPath u) (files st)\<rparr>))"

definition mem_readDirectory :: "uri \<Rightarrow> files_state \<Rightarrow> fs_error + (string \<times> nat) list" where
  "mem_readDirectory u st =
     (if fsPath u \<in> set (locked st) then Inl no_permissions
      else
        let prefix = (if fsPath u = ''/'' then ''/'' else fsPath u @ ''/'')
        in Inr (map (\<lambda>e. (drop (length prefix) (fst e), 1))
                 (filter (\<lambda>e. starts_with prefix (fst e)
                              \<and> CHR ''/'' \<notin> set (drop (length prefix) (fst e)))
                    (files st))))"

text \<open>
  The pipeline without the gunzip stage writes the chunks to the file. With the
  gunzip stage it fails here, as it does on a body that is not in the gzip format,
  and leaves an empty file.
\<close>

definition mem_pipeline ::
  "bool \<Rightarrow> chunk list \<Rightarrow> string \<Rightarrow> nat option \<Rightarrow> files_state \<Rightarrow> error option \<times> files_state" where
  "mem_pipeline gz chunks path md st =
     (if path \<in> set (locked st) then (Some (External ''EACCES''), st)
      else if gz then (Some (External ''incorrect header check''),
                       st\<lparr>files := (path, []) # without path (files st)\<rparr>)
      else (None, st\<lparr>files := (path, concat chunks) # without path (files st)\<rparr>))"

text \<open>
  File URIs of plain absolute paths: \<^verbatim>\<open>Uri.file\<close> keeps the path, and \<^verbatim>\<open>Uri.joinPath\<close>
  appends one more component.
\<close>

definition mem_file :: "string \<Rightarrow> uri" where
  "mem_file p = \<lparr>fsPath = p, toString = ''file://'' @ p\<rparr>"

definition mem_joinPath :: "uri \<Rightarrow> string \<Rightarrow> uri" where
  "mem_joinPath u seg =
     mem_file (if fsPath u = ''/'' then ''/'' @ seg else fsPath u @ ''/'' @ seg)"

text \<open>The platform over a given behaviour of the network.\<close>

definition mem_platform ::
  "(string \<Rightarrow> request_init \<Rightarrow> error + 'j response) \<Rightarrow> (files_state, 'j) platform" where
  "mem_platform net =
     \<lparr>fetch = net,
      pipeline = mem_pipeline,
      fs_rename = mem_rename,
      fs_readDirectory = mem_readDirectory,
      fs_delete = mem_delete,
      path_parse = posix_parse,
      Uri_file = mem_file,
      Uri_joinPath = mem_joinPath\<rparr>"

text \<open>
  The name of a displaced artifact as the specification lays it out: the base name,
  \<^verbatim>\<open>-stale-\<close>, a random token of ten hexadecimal digits, and the extension.
\<close>

definition is_hex_digit :: "char \<Rightarrow> bool" where
  "is_hex_digit c = (c \<in> set ''0123456789abcdef'')"

definition displaced_name :: "string \<Rightarrow> string \<Rightarrow> string \<Rightarrow> bool" where
  "displaced_name stem extension entry =
     (\<exists>token. length token = 10 \<and> list_all is_hex_digit token
        \<and> entry = stem @ ''-stale-'' @ token @ extension)"

section \<open>Responses, options and worlds used as examples\<close>

text \<open>
  A response with status 404; a successful response that has no \<^verbatim>\<open>content-length\<close>
  header and a body of three bytes; the URL of an asset; a world in which the tool is
  installed, one in which the installed file is in use and refuses every change, and
  one with other files next to the tool; the options of a download to
  \<^verbatim>\<open>/opt/tool/tool\<close>.
\<close>

definition response_404 :: "unit response" where
  "response_404 =
     \<lparr>status = 404, headers = [], body_text = Inr ''Not Found'',
      body_json = Inl (External ''invalid json response body''), body_chunks = []\<rparr>"

definition response_without_length :: "unit response" where
  "response_without_length =
     \<lparr>status = 200, headers = [(''content-type'', ''application/octet-stream'')],
      body_text = Inr [], body_json = Inl (External ''invalid json response body''),
      body_chunks = [[104, 105, 33]]\<rparr>"

definition asset_url :: uri where
  "asset_url = \<lparr>fsPath = ''/tool-linux'', toString = ''https://x/tool-linux''\<rparr>"

definition installed :: "files_state world" where
  "installed =
     \<lparr>fs = \<lparr>files = [(''/opt/tool/tool'', [9])], locked = []\<rparr>,
      logged = [], notifications = []\<rparr>"

definition in_use :: "files_state world" where
  "in_use =
     \<lparr>fs = \<lparr>files = [(''/opt/tool/tool'', [9])], locked = [''/opt/tool/tool'']\<rparr>,
      logged = [], notifications = []\<rparr>"

definition tool_opts :: DownloadOpts where
  "tool_opts =
     \<lparr>progressTitle = ''Downloading'', url = asset_url, dest = mem_file ''/opt/tool/tool'',
      mode = Some 493, gunzip = None, httpProxy = None\<rparr>"

definition cluttered :: "files_state world" where
  "cluttered =
     \<lparr>fs = \<lparr>files = [(''/opt/tool/tool'', [9]),
                      (''/opt/tool/tool-stale-0123456789'', [8]),
                      (''/opt/tool/tool-stale-aaaaaaaaaa'', [7]),
                      (''/opt/tool/not-tool-stale-x'', [6]),
                      (''/opt/tool/notes.txt'', [5])],
            locked = [''/opt/tool/tool-stale-aaaaaaaaaa'']\<rparr>,
      logged = [], notifications = []\<rparr>"

section \<open>Rounding to binary64\<close>

lemma rhe_of_int [simp]: "round_half_even (of_int n) = n"
  by (simp add: round_half_even_def)

lemma rhe_mono: "x \<le> y \<Longrightarrow> round_half_even x \<le> round_half_even y"
proof -
  assume xy: "x \<le> y"
  have fl: "\<lfloor>x\<rfloor> \<le> \<lfloor>y\<rfloor>" using xy by (rule floor_mono)
  show ?thesis
  proof (cases "\<lfloor>x\<rfloor> = \<lfloor>y\<rfloor>")
    case True
    then show ?thesis using xy by (auto simp: round_half_even_def Let_def)
  next
    case False
    then have "\<lfloor>x\<rfloor> + 1 \<le> \<lfloor>y\<rfloor>" using fl by simp
    moreover have "round_half_even x \<le> \<lfloor>x\<rfloor> + 1" by (simp add: round_half_even_def Let_def)
    moreover have "\<lfloor>y\<rfloor> \<le> round_half_even y" by (simp add: round_half_even_def Let_def)
    ultimately show ?thesis by linarith
  qed
qed

lemma rhe_nonneg: "0 \<le> x \<Longrightarrow> 0 \<le> round_half_even x"
  using rhe_mono [of 0 x] rhe_of_int [of 0] by simp

lemma ilog2_bounds:
  assumes "0 < q"
  shows "2 powi ilog2 q \<le> q" and "q < 2 powi (ilog2 q + 1)"
proof -
  have "2 powi ilog2 q \<le> q \<and> q < 2 powi (ilog2 q + 1)"
  proof (cases "1 \<le> q")
    case True
    define n where "n = \<lfloor>q\<rfloor>"
    have n1: "1 \<le> n" using True by (simp add: n_def le_floor_iff)
    then have n0: "0 < n" by simp
    have bl: "1 \<le> bitlen n" using n0 bitlen_eq_zero_iff [of n] bitlen_nonneg [of n] by linarith
    from bitlen_bounds [OF n0]
    have lo: "(2::int) ^ nat (bitlen n - 1) \<le> n" and hi: "n < 2 ^ nat (bitlen n)" by auto
    have i: "ilog2 q = bitlen n - 1" using True by (simp add: ilog2_def n_def)
    have "(2::rat) powi (bitlen n - 1) = of_int (2 ^ nat (bitlen n - 1))"
      using bl by (simp add: power_int_def)
    also have "\<dots> \<le> of_int n" using lo by (simp only: of_int_le_iff)
    also have "\<dots> \<le> q" by (simp add: n_def)
    finally have A: "2 powi ilog2 q \<le> q" by (simp add: i)
    have "q < of_int (n + 1)" using floor_correct [of q] by (simp add: n_def)
    also have "\<dots> \<le> of_int (2 ^ nat (bitlen n))" using hi by (simp only: of_int_le_iff)
    also have "\<dots> = (2::rat) powi (bitlen n)" using bl by (simp add: power_int_def)
    finally have B: "q < 2 powi (ilog2 q + 1)" by (simp add: i)
    from A B show ?thesis ..
  next
    case False
    then have q1: "q < 1" by simp
    define m where "m = \<lceil>1 / q\<rceil>"
    have "1 < 1 / q" using assms q1 by (simp add: field_simps)
    then have m2: "2 \<le> m" unfolding m_def by (simp add: le_ceiling_iff)
    then have m0: "0 < m - 1" by simp
    define j where "j = bitlen (m - 1)"
    have j1: "1 \<le> j" using m0 bitlen_eq_zero_iff [of "m - 1"] bitlen_nonneg [of "m - 1"]
      unfolding j_def by linarith
    from bitlen_bounds [OF m0]
    have lo: "(2::int) ^ nat (j - 1) \<le> m - 1" and hi: "m - 1 < 2 ^ nat j" by (auto simp: j_def)
    have i: "ilog2 q = - j" using False by (simp add: ilog2_def m_def j_def)
    have "1 / q \<le> of_int m" by (simp add: m_def)
    also have "\<dots> \<le> of_int (2 ^ nat j)" using hi by (simp only: of_int_le_iff)
    finally have "1 / q \<le> 2 ^ nat j" by simp
    then have "1 \<le> q * 2 ^ nat j" using assms by (simp add: field_simps)
    then have "inverse (2 ^ nat j) \<le> q" by (simp add: field_simps)
    moreover have "(2::rat) powi (- j) = inverse (2 ^ nat j)"
      using j1 by (simp only: power_int_minus) (simp add: power_int_def)
    ultimately have A: "2 powi ilog2 q \<le> q" by (simp only: i)
    have "(2::rat) ^ nat (j - 1) = of_int (2 ^ nat (j - 1))" by simp
    also have "\<dots> \<le> of_int (m - 1)" using lo by (simp only: of_int_le_iff)
    also have "\<dots> < 1 / q" unfolding m_def using ceiling_correct [of "1 / q"] by simp
    finally have "(2::rat) ^ nat (j - 1) < 1 / q" .
    then have "q * 2 ^ nat (j - 1) < 1" using assms by (simp add: field_simps)
    then have "q < inverse (2 ^ nat (j - 1))" by (simp add: field_simps)
    moreover have "(2::rat) powi (- (j - 1)) = inverse (2 ^ nat (j - 1))"
      using j1 by (simp only: power_int_minus) (simp add: power_int_def)
    moreover have "- j + 1 = - (j - 1)" by simp
    ultimately have B: "q < 2 powi (ilog2 q + 1)" by (simp only: i)
    from A B show ?thesis ..
  qed
  then show "2 powi ilog2 q \<le> q" and "q < 2 powi (ilog2 q + 1)" by simp_all
qed



lemma ilog2_mono:
  assumes "0 < q1" and "q1 \<le> q2"
  shows "ilog2 q1 \<le> ilog2 q2"
proof -
  have "(2::rat) powi ilog2 q1 < 2 powi (ilog2 q2 + 1)"
    using ilog2_bounds(1) [OF assms(1)] ilog2_bounds(2) [of q2] assms by simp
  then have "ilog2 q1 < ilog2 q2 + 1"
    by (metis not_le power_int_increasing one_le_numeral)
  then show ?thesis by simp
qed

lemma ulp_exp_mono: "0 < q1 \<Longrightarrow> q1 \<le> q2 \<Longrightarrow> ulp_exp q1 \<le> ulp_exp q2"
  using ilog2_mono [of q1 q2] by (simp add: ulp_exp_def)


lemma two_powi_pos [simp]: "0 < (2::rat) powi e"
  by (simp add: zero_less_power_int)

lemma round_at_upper:
  assumes "q \<le> of_int N * 2 powi e"
  shows "of_int (round_half_even (q / 2 powi e)) * 2 powi e \<le> of_int N * (2::rat) powi e"
proof -
  have "q / 2 powi e \<le> of_int N" using assms by (simp add: field_simps)
  from rhe_mono [OF this] have "round_half_even (q / 2 powi e) \<le> N" by simp
  then have "(of_int (round_half_even (q / 2 powi e)) :: rat) \<le> of_int N" by (simp only: of_int_le_iff)
  then show ?thesis by (simp add: mult_right_mono)
qed

lemma round_at_lower:
  assumes "of_int N * 2 powi e \<le> q"
  shows "of_int N * 2 powi e \<le> of_int (round_half_even (q / 2 powi e)) * (2::rat) powi e"
proof -
  have "of_int N \<le> q / 2 powi e" using assms by (simp add: field_simps)
  from rhe_mono [OF this] have "N \<le> round_half_even (q / 2 powi e)" by simp
  then have "(of_int N :: rat) \<le> of_int (round_half_even (q / 2 powi e))" by (simp only: of_int_le_iff)
  then show ?thesis by (simp add: mult_right_mono)
qed

lemma round_to_ulp_zero [simp]: "round_to_ulp 0 = 0"
  by (simp add: round_to_ulp_def round_half_even_def)

lemma round_to_ulp_nonneg: "0 \<le> q \<Longrightarrow> 0 \<le> round_to_ulp q"
  unfolding round_to_ulp_def using round_at_lower [of 0 "ulp_exp q" q] by simp

lemma two_powi_of_int: "0 \<le> k \<Longrightarrow> (2::rat) powi k = of_int (2 ^ nat k)"
  by (simp add: power_int_def)

lemma round_to_ulp_mono:
  assumes "0 \<le> q1" and "q1 \<le> q2"
  shows "round_to_ulp q1 \<le> round_to_ulp q2"
proof (cases "q1 = 0")
  case True
  then show ?thesis using assms round_to_ulp_nonneg [of q2] by simp
next
  case False
  then have p1: "0 < q1" using assms by simp
  then have p2: "0 < q2" using assms by simp
  define e1 where "e1 = ulp_exp q1"
  define e2 where "e2 = ulp_exp q2"
  have le: "e1 \<le> e2" unfolding e1_def e2_def using p1 assms(2) by (rule ulp_exp_mono)
  show ?thesis
  proof (cases "e1 = e2")
    case True
    have "q1 / 2 powi e2 \<le> q2 / 2 powi e2" using assms(2) by (simp add: divide_right_mono)
    from rhe_mono [OF this]
    have "(of_int (round_half_even (q1 / 2 powi e2)) :: rat) \<le> of_int (round_half_even (q2 / 2 powi e2))"
      by (simp only: of_int_le_iff)
    then have "of_int (round_half_even (q1 / 2 powi e2)) * 2 powi e2
        \<le> of_int (round_half_even (q2 / 2 powi e2)) * (2::rat) powi e2"
      by (simp add: mult_right_mono)
    then show ?thesis using True by (simp add: round_to_ulp_def e1_def e2_def)
  next
    case False
    then have lt: "e1 < e2" using le by simp
    have i2: "ilog2 q2 = e2 + 52" using lt unfolding e1_def e2_def ulp_exp_def by linarith
    have i1: "ilog2 q1 + 1 \<le> e1 + 53" unfolding e1_def ulp_exp_def by linarith
    define B :: rat where "B = 2 powi (e2 + 52)"
    have B2: "B = of_int (2 ^ 52) * 2 powi e2"
      unfolding B_def by (simp add: power_int_add)
    have "e2 + 52 = (e2 + 52 - e1) + e1" by simp
    then have "B = 2 powi (e2 + 52 - e1) * 2 powi e1"
      unfolding B_def by (metis power_int_add zero_neq_numeral)
    then have B1: "B = of_int (2 ^ nat (e2 + 52 - e1)) * 2 powi e1"
      using lt two_powi_of_int [of "e2 + 52 - e1"] by simp
    have "q1 < 2 powi (ilog2 q1 + 1)" using ilog2_bounds(2) [OF p1] .
    also have "\<dots> \<le> 2 powi (e1 + 53)" using i1 by (simp add: power_int_increasing)
    also have "\<dots> \<le> B" unfolding B_def using lt by (simp add: power_int_increasing)
    finally have "q1 \<le> B" by simp
    then have u: "round_to_ulp q1 \<le> B"
      unfolding round_to_ulp_def B1 e1_def [symmetric] by (rule round_at_upper)
    have "B \<le> q2" unfolding B_def using ilog2_bounds(1) [OF p2] by (simp add: i2)
    then have l: "B \<le> round_to_ulp q2"
      unfolding round_to_ulp_def B2 e2_def [symmetric] by (rule round_at_lower)
    from u l show ?thesis by simp
  qed
qed

lemma round_to_ulp_exact:
  assumes "0 < m" and "m < 2 ^ 53" and "- 1074 \<le> k"
  shows "round_to_ulp (of_int m * 2 powi k) = of_int m * 2 powi k"
proof -
  define q :: rat where "q = of_int m * 2 powi k"
  have q0: "0 < q" unfolding q_def using assms(1) by simp
  have "(of_int m :: rat) < of_int (2 ^ 53)" using assms(2) by (simp only: of_int_less_iff)
  then have "q < 2 ^ 53 * 2 powi k" unfolding q_def by simp
  also have "\<dots> = 2 powi (53 + k)" by (simp add: power_int_add)
  finally have "2 powi ilog2 q < (2::rat) powi (53 + k)"
    using ilog2_bounds(1) [OF q0] by simp
  then have "ilog2 q < 53 + k"
    by (metis not_le power_int_increasing one_le_numeral)
  then have le: "ulp_exp q \<le> k" using assms(3) by (simp add: ulp_exp_def)
  define u :: rat where "u = 2 powi ulp_exp q"
  define d where "d = k - ulp_exp q"
  have u0: "u \<noteq> 0" by (simp add: u_def)
  have d0: "0 \<le> d" using le by (simp add: d_def)
  have "k = d + ulp_exp q" by (simp add: d_def)
  then have pk: "(2::rat) powi k = 2 powi d * u"
    unfolding u_def by (metis power_int_add zero_neq_numeral)
  have pd: "(2::rat) powi d = of_int (2 ^ nat d)" using d0 by (rule two_powi_of_int)
  have qu: "q = of_int (m * 2 ^ nat d) * u"
    unfolding q_def pk pd by simp
  then have "q / u = of_int (m * 2 ^ nat d)" using u0 by simp
  then have "round_half_even (q / u) = m * 2 ^ nat d" by (simp only: rhe_of_int)
  then have "round_to_ulp q = of_int (m * 2 ^ nat d) * u"
    by (simp add: round_to_ulp_def u_def)
  then have "round_to_ulp q = q" using qu by simp
  then show ?thesis by (simp only: q_def)
qed

lemma round_to_ulp_int:
  assumes "0 \<le> n" and "n \<le> 2 ^ 53"
  shows "round_to_ulp (of_int n) = of_int n"
proof -
  consider "n = 0" | "n = 2 ^ 53" | "0 < n" "n < 2 ^ 53" using assms by fastforce
  then show ?thesis
  proof cases
    case 1
    then show ?thesis by simp
  next
    case 2
    have "round_to_ulp (of_int 1 * 2 powi 53) = of_int 1 * 2 powi 53"
      by (rule round_to_ulp_exact) simp_all
    then show ?thesis using 2 by simp
  next
    case 3
    have "round_to_ulp (of_int n * 2 powi 0) = of_int n * 2 powi 0"
      using 3 by (intro round_to_ulp_exact) simp_all
    then show ?thesis by simp
  qed
qed

section \<open>The order of Numbers\<close>

lemma round_to_ulp_idem: 
  assumes "0 \<le> q"
  shows "round_to_ulp (round_to_ulp q) = round_to_ulp q"
proof (cases "q = 0")
  case True then show ?thesis by simp
next
  case False
  then have q0: "0 < q" using assms by simp
  define e where "e = ulp_exp q"
  define N where "N = round_half_even (q / 2 powi e)"
  have r: "round_to_ulp q = of_int N * 2 powi e" by (simp add: round_to_ulp_def N_def e_def)
  have e1: "- 1074 \<le> e" by (simp add: e_def ulp_exp_def)
  have "ilog2 q + 1 \<le> e + 53" by (simp add: e_def ulp_exp_def)
  then have "(2::rat) powi (ilog2 q + 1) \<le> 2 powi (e + 53)" by (simp add: power_int_increasing)
  then have "q \<le> 2 powi (e + 53)" using ilog2_bounds(2) [OF q0] by simp
  also have "\<dots> = of_int (2 ^ 53) * 2 powi e" by (simp add: power_int_add)
  finally have "of_int N * 2 powi e \<le> of_int (2 ^ 53) * (2::rat) powi e"
    unfolding N_def by (rule round_at_upper)
  then have "(of_int N :: rat) \<le> of_int (2 ^ 53)" by (simp only: mult_le_cancel_right_pos two_powi_pos)
  then have N1: "N \<le> 2 ^ 53" by (simp only: of_int_le_iff)
  have N0: "0 \<le> N" unfolding N_def using q0 by (intro rhe_nonneg) simp
  consider "N = 0" | "N = 2 ^ 53" | "0 < N" "N < 2 ^ 53" using N0 N1 by fastforce
  then show ?thesis
  proof cases
    case 1 then show ?thesis by (simp add: r)
  next
    case 2
    have "round_to_ulp (of_int 1 * 2 powi (e + 53)) = of_int 1 * 2 powi (e + 53)"
      using e1 by (intro round_to_ulp_exact) simp_all
    moreover have "of_int N * 2 powi e = of_int 1 * (2::rat) powi (e + 53)"
      using 2 by (simp add: power_int_add)
    ultimately show ?thesis by (simp only: r)
  next
    case 3
    have "round_to_ulp (of_int N * 2 powi e) = of_int N * 2 powi e"
      using 3 e1 by (intro round_to_ulp_exact)
    then show ?thesis by (simp only: r)
  qed
qed

lemma js_le_trans: "js_le x y \<Longrightarrow> js_le y z \<Longrightarrow> js_le x z"
  by (cases x; cases y; cases z) (auto simp: val_def)

lemma js_le_lt_trans: "js_le x y \<Longrightarrow> js_lt y z \<Longrightarrow> js_lt x z"
  by (cases x; cases y; cases z) (auto simp: val_def split: if_splits)

lemma js_lt_imp_le: "js_lt x y \<Longrightarrow> js_le x y"
  by (cases x; cases y) (auto simp: val_def split: if_splits)

lemma js_lt_irrefl: "\<not> js_lt x x"
  by (cases x) auto

lemma js_le_ne_lt: "js_le x y \<Longrightarrow> strict_ne y x \<Longrightarrow> js_lt x y"
  by (cases x; cases y) (auto simp: val_def split: if_splits)

lemma nonneg_zero_le: "nonneg x \<Longrightarrow> js_le (Num False 0) x"
  by (cases x) (auto simp: nonneg_def val_def)

lemma nonneg_fl: "0 \<le> q \<Longrightarrow> nonneg (fl False q)"
  by (simp add: fl_def to_double_def Let_def nonneg_def round_to_ulp_nonneg)

lemma byte_count_fl: "0 \<le> q \<Longrightarrow> byte_count (fl False q)"
  by (simp add: fl_def to_double_def Let_def byte_count_def round_to_ulp_nonneg round_to_ulp_idem)

lemma js_le_fl: "0 \<le> q1 \<Longrightarrow> q1 \<le> q2 \<Longrightarrow> js_le (fl False q1) (fl False q2)"
  using round_to_ulp_mono [of q1 q2]
  by (auto simp: fl_def to_double_def Let_def val_def)

lemma nonneg_mul_100: "nonneg x \<Longrightarrow> nonneg (js_mul x (Num False 100))"
  by (cases x) (auto simp: nonneg_def intro: nonneg_fl [unfolded nonneg_def])

lemma js_le_mul_100:
  "nonneg x \<Longrightarrow> nonneg y \<Longrightarrow> js_le x y \<Longrightarrow> js_le (js_mul x (Num False 100)) (js_mul y (Num False 100))"
proof (cases x; cases y)
  fix s a t b assume *: "nonneg x" "nonneg y" "js_le x y" "x = Num s a" "y = Num t b"
  then show ?thesis using js_le_fl [of "a * 100" "b * 100"] by (simp add: nonneg_def val_def)
next
  fix s a t assume *: "nonneg x" "nonneg y" "js_le x y" "x = Num s a" "y = Infinity t"
  then have "nonneg (fl False (a * 100))" by (intro nonneg_fl) (simp add: nonneg_def)
  then show ?thesis using * by (cases "fl False (a * 100)") (auto simp: nonneg_def)
qed (auto simp: nonneg_def)

lemma nonneg_Math_round: "nonneg x \<Longrightarrow> nonneg (Math_round x)"
  by (cases x) (auto simp: nonneg_def)

lemma js_le_Math_round: "nonneg x \<Longrightarrow> nonneg y \<Longrightarrow> js_le x y \<Longrightarrow> js_le (Math_round x) (Math_round y)"
  by (cases x; cases y) (auto simp: nonneg_def val_def intro: floor_mono)

section \<open>Monotonicity of the reported percentage\<close>

lemma nonneg_div:
  assumes "pos_count R" and "0 \<le> b"
  shows "nonneg (js_div R (Num False b))"
proof (cases R)
  case (Num s r)
  then have "\<not> s" "0 < r" using assms(1) by (auto simp: pos_count_def byte_count_def val_def)
  then show ?thesis using Num assms(2) nonneg_fl [of "r / b"] by (auto simp: nonneg_def)
qed (use assms in \<open>auto simp: pos_count_def byte_count_def nonneg_def\<close>)

lemma js_le_div:
  assumes "pos_count R1" and "pos_count R2" and "js_le R1 R2" and "0 \<le> b"
  shows "js_le (js_div R1 (Num False b)) (js_div R2 (Num False b))"
proof (cases "b = 0")
  case True
  then show ?thesis using assms
    by (cases R1; cases R2) (auto simp: pos_count_def byte_count_def val_def)
next
  case False
  then have b: "0 < b" using assms(4) by simp
  show ?thesis
  proof (cases R1; cases R2)
    fix s r t r' assume *: "R1 = Num s r" "R2 = Num t r'"
    then have "0 \<le> r / b" "r / b \<le> r' / b" using assms b
      by (auto simp: pos_count_def byte_count_def val_def divide_right_mono)
    then show ?thesis using * assms b js_le_fl [of "r / b" "r' / b"]
      by (auto simp: pos_count_def byte_count_def)
  next
    fix s r t assume *: "R1 = Num s r" "R2 = Infinity t"
    then have "nonneg (fl False (r / b))" using assms b
      by (intro nonneg_fl) (auto simp: pos_count_def byte_count_def)
    then show ?thesis using * assms b
      by (cases "fl False (r / b)") (auto simp: nonneg_def pos_count_def byte_count_def)
  qed (use assms in \<open>auto simp: pos_count_def byte_count_def\<close>)
qed

lemma nonneg_newPercentage:
  "pos_count R \<Longrightarrow> 0 \<le> b \<Longrightarrow> nonneg (newPercentage R (Num False b))"
  unfolding newPercentage_def
  by (intro nonneg_Math_round nonneg_mul_100 nonneg_div)

lemma js_le_newPercentage:
  "pos_count R1 \<Longrightarrow> pos_count R2 \<Longrightarrow> js_le R1 R2 \<Longrightarrow> 0 \<le> b \<Longrightarrow>
   js_le (newPercentage R1 (Num False b)) (newPercentage R2 (Num False b))"
  unfolding newPercentage_def
  by (intro js_le_Math_round js_le_mul_100 js_le_div nonneg_mul_100 nonneg_div)

lemma js_add_count:
  assumes "byte_count R" and "0 < n"
  shows "pos_count (js_add R (Num False (of_nat n)))"
    and "js_le R (js_add R (Num False (of_nat n)))"
proof -
  have "pos_count (js_add R (Num False (of_nat n))) \<and> js_le R (js_add R (Num False (of_nat n)))"
  proof (cases R)
    case (Num s r)
    then have r: "\<not> s" "0 \<le> r" "round_to_ulp r = r" using assms(1) by (auto simp: byte_count_def)
    define q :: rat where "q = r + of_nat n"
    have q1: "1 \<le> q" using r(2) assms(2) by (simp add: q_def)
    have "round_to_ulp (of_int 1) = of_int 1" by (rule round_to_ulp_int) simp_all
    then have "1 \<le> round_to_ulp q" using round_to_ulp_mono [of 1 q] q1 by simp
    moreover have "r \<le> round_to_ulp q" using round_to_ulp_mono [of r q] r by (simp add: q_def)
    moreover have "js_add R (Num False (of_nat n)) = fl False q"
      using Num r q1 by (auto simp: val_def q_def Let_def)
    moreover have "byte_count (fl False q)" using q1 by (intro byte_count_fl) simp
    ultimately show ?thesis using Num r
      by (auto simp: pos_count_def fl_def to_double_def Let_def val_def)
  qed (use assms in \<open>auto simp: pos_count_def byte_count_def\<close>)
  then show "pos_count (js_add R (Num False (of_nat n)))"
    and "js_le R (js_add R (Num False (of_nat n)))" by simp_all
qed

lemma js_le_refl_right: "js_le x y \<Longrightarrow> js_le y y"
  by (cases x; cases y) auto

lemma sorted_wrt_snoc:
  "sorted_wrt P (xs @ [y]) \<longleftrightarrow> sorted_wrt P xs \<and> (\<forall>x\<in>set xs. P x y)"
  by (auto simp: sorted_wrt_append)

lemma on_data_increasing:
  assumes "0 \<le> b"
    and "byte_count R"
    and "\<forall>c\<in>set cs. c \<noteq> []"
    and "sorted_wrt js_lt (map percentage (reported st))"
    and "\<forall>x\<in>set (reported st). js_le (percentage x) (lastPercentage st)"
    and "\<forall>R'. pos_count R' \<longrightarrow> js_le R R' \<longrightarrow> js_le (lastPercentage st) (newPercentage R' (Num False b))"
  shows "sorted_wrt js_lt (map percentage (reported (snd (on_data report_progress (Num False b) cs (R, st)))))"
  using assms(2-)
proof (induction cs arbitrary: R st)
  case Nil
  then show ?case by simp
next
  case (Cons c cs)
  define R' where "R' = js_add R (Num False (of_nat (length c)))"
  define p where "p = newPercentage R' (Num False b)"
  define st' where "st' = report_progress R' (Num False b) st"
  have len: "0 < length c" using Cons.prems(2) by simp
  have pc: "pos_count R'" and le: "js_le R R'"
    unfolding R'_def using js_add_count [OF Cons.prems(1) len] by simp_all
  have bc: "byte_count R'" using pc by (simp add: pos_count_def)
  have Lp: "js_le (lastPercentage st) p" unfolding p_def using Cons.prems(5) pc le by simp
  have later: "js_le p (newPercentage R'' (Num False b))" if "pos_count R''" "js_le R' R''" for R''
    unfolding p_def using pc that assms(1) by (intro js_le_newPercentage)
  have step: "on_data report_progress (Num False b) (c # cs) (R, st)
      = on_data report_progress (Num False b) cs (R', st')"
    by (simp add: R'_def st'_def Let_def)
  have "sorted_wrt js_lt (map percentage (reported (snd (on_data report_progress (Num False b) cs (R', st')))))"
  proof (rule Cons.IH [OF bc])
    show "\<forall>c\<in>set cs. c \<noteq> []" using Cons.prems(2) by simp
  next
    show "sorted_wrt js_lt (map percentage (reported st'))"
    proof (cases "strict_ne p (lastPercentage st)")
      case True
      then have lt: "js_lt (lastPercentage st) p" using Lp by (intro js_le_ne_lt)
      have "\<forall>x\<in>set (reported st). js_lt (percentage x) p"
        using Cons.prems(4) lt js_le_lt_trans by blast
      then show ?thesis using True Cons.prems(3)
        by (simp add: st'_def report_progress_def p_def [symmetric] sorted_wrt_snoc)
    next
      case False
      then show ?thesis using Cons.prems(3)
        by (simp add: st'_def report_progress_def p_def [symmetric])
    qed
  next
    show "\<forall>x\<in>set (reported st'). js_le (percentage x) (lastPercentage st')"
    proof (cases "strict_ne p (lastPercentage st)")
      case True
      have "js_le p p" using Lp by (rule js_le_refl_right)
      moreover have "\<forall>x\<in>set (reported st). js_le (percentage x) p"
        using Cons.prems(4) Lp js_le_trans by blast
      ultimately show ?thesis using True
        by (simp add: st'_def report_progress_def p_def [symmetric])
    next
      case False
      then show ?thesis using Cons.prems(4)
        by (simp add: st'_def report_progress_def p_def [symmetric])
    qed
  next
    show "\<forall>R''. pos_count R'' \<longrightarrow> js_le R' R'' \<longrightarrow>
        js_le (lastPercentage st') (newPercentage R'' (Num False b))"
    proof (intro allI impI)
      fix R'' assume a: "pos_count R''" "js_le R' R''"
      show "js_le (lastPercentage st') (newPercentage R'' (Num False b))"
      proof (cases "strict_ne p (lastPercentage st)")
        case True
        then show ?thesis using later [OF a]
          by (simp add: st'_def report_progress_def p_def [symmetric])
      next
        case False
        have "js_le (lastPercentage st) p" by (rule Lp)
        then have "js_le (lastPercentage st) (newPercentage R'' (Num False b))"
          using later [OF a] js_le_trans by blast
        then show ?thesis using False
          by (simp add: st'_def report_progress_def p_def [symmetric])
      qed
    qed
  qed
  then show ?case by (simp only: step)
qed

lemma sorted_wrt_js_lt_distinct: "sorted_wrt js_lt xs \<Longrightarrow> distinct xs"
  by (induction xs) (auto simp: js_lt_irrefl)

section \<open>Evaluation of the percentage\<close>






lemma not_overflow: "v \<le> 2 ^ 53 \<Longrightarrow> \<not> 2 ^ 1024 \<le> (v::rat)"
proof -
  assume "v \<le> 2 ^ 53"
  also have "(2::rat) ^ 53 < 2 ^ 1024" by (intro power_strict_increasing) simp_all
  finally show ?thesis by simp
qed

lemma fl_int:
  assumes "0 \<le> n" and "n \<le> 2 ^ 53"
  shows "fl s (of_int n) = Num s (of_int n)"
proof -
  have "(of_int n :: rat) \<le> of_int (2 ^ 53)" using assms(2) by (simp only: of_int_le_iff)
  then have "\<not> 2 ^ 1024 \<le> (of_int n :: rat)" by (intro not_overflow) simp
  then show ?thesis using round_to_ulp_int [OF assms]
    by (simp add: fl_def to_double_def Let_def)
qed

lemma add_sub_int:
  assumes "int_pct L" and "int_pct p"
  shows "js_add L (js_sub p L) = p"
proof -
  from assms obtain l k where l: "0 \<le> l" "l \<le> 2 ^ 53" "L = Num False (of_int l)"
    and k: "0 \<le> k" "k \<le> 2 ^ 53" "p = Num False (of_int k)" by (auto simp: int_pct_def)
  show ?thesis
  proof (cases "k = l")
    case True
    then have "js_sub p L = Num False 0" by (simp add: js_sub_def l k val_def)
    then show ?thesis using True l(1) fl_int [OF l(1,2), of False]
      by (auto simp: l(3) k(3) val_def Let_def)
  next
    case False
    have "\<bar>of_int k - of_int l\<bar> = (of_int \<bar>k - l\<bar> :: rat)" by simp
    moreover have "fl (k < l) (of_int \<bar>k - l\<bar>) = Num (k < l) (of_int \<bar>k - l\<bar>)"
      using l k by (intro fl_int) auto
    ultimately have s: "js_sub p L = Num (k < l) (of_int \<bar>k - l\<bar>)"
      using False by (simp add: js_sub_def l k val_def Let_def del: of_int_abs)
    have v: "val False (of_int l) + val (k < l) (of_int \<bar>k - l\<bar>) = (of_int k :: rat)"
      by (auto simp: val_def)
    have "js_add (Num False (of_int l)) (Num (k < l) (of_int \<bar>k - l\<bar>)) = Num False (of_int k)"
    proof (cases "k = 0")
      case True
      then show ?thesis using False l(1) by (simp add: val_def Let_def)
    next
      case False
      then show ?thesis using fl_int [OF k(1,2), of False] k(1)
        by (simp add: v Let_def del: of_int_abs)
    qed
    then show ?thesis using s unfolding l(3) k(3) by (simp only:)
  qed
qed

section \<open>The increments and the last percentage\<close>

lemma js_add_nat:
  assumes "s + l \<le> 2 ^ 53"
  shows "js_add (Num False (of_nat s)) (Num False (of_nat l)) = Num False (of_nat (s + l))"
proof (cases "s + l = 0")
  case True
  then show ?thesis by (simp add: val_def)
next
  case False
  have "int (s + l) \<le> 2 ^ 53" using assms by (metis of_nat_le_iff of_nat_numeral of_nat_power)
  then have "fl False (of_int (int (s + l))) = Num False (of_int (int (s + l)))"
    by (intro fl_int) simp_all
  moreover have "(of_nat s + of_nat l :: rat) \<noteq> 0" using False
    by (metis of_nat_add of_nat_eq_0_iff)
  ultimately show ?thesis by (simp add: val_def Let_def)
qed

lemma newPercentage_int_pct:
  assumes "0 \<le> r" and "r \<le> 2 ^ 46" and "1 \<le> b"
  shows "int_pct (newPercentage (Num False r) (Num False b))"
proof -
  define q where "q = r / b"
  have q0: "0 \<le> q" using assms by (simp add: q_def)
  have "r / b \<le> r / 1" using assms by (intro divide_left_mono) simp_all
  then have q1: "q \<le> of_int (2 ^ 46)" using assms(2) by (simp add: q_def)
  define m where "m = round_to_ulp q"
  have m0: "0 \<le> m" unfolding m_def using q0 by (rule round_to_ulp_nonneg)
  have "round_to_ulp (of_int (2 ^ 46)) = of_int (2 ^ 46)" by (rule round_to_ulp_int) simp_all
  then have m1: "m \<le> 2 ^ 46" unfolding m_def using round_to_ulp_mono [OF q0 q1] by simp
  then have "\<not> 2 ^ 1024 \<le> m" by (intro not_overflow) simp
  then have d: "js_div (Num False r) (Num False b) = Num False m"
    using assms(3) by (simp add: fl_def to_double_def Let_def m_def q_def)
  define x where "x = round_to_ulp (m * 100)"
  have x0: "0 \<le> x" unfolding x_def using m0 by (intro round_to_ulp_nonneg) simp
  have "round_to_ulp (of_int (100 * 2 ^ 46)) = of_int (100 * 2 ^ 46)"
    by (rule round_to_ulp_int) simp_all
  moreover have "m * 100 \<le> of_int (100 * 2 ^ 46)" using m1 by simp
  ultimately have x1: "x \<le> of_int (100 * 2 ^ 46)"
    unfolding x_def using round_to_ulp_mono [of "m * 100" "of_int (100 * 2 ^ 46)"] m0 by simp
  then have "\<not> 2 ^ 1024 \<le> x" by (intro not_overflow) simp
  then have p: "newPercentage (Num False r) (Num False b) = Num False (of_int \<lfloor>x + 1 / 2\<rfloor>)"
    unfolding newPercentage_def d by (simp add: fl_def to_double_def Let_def x_def)
  have "0 \<le> \<lfloor>x + 1 / 2\<rfloor>" using x0 by simp
  moreover have "x + 1 / 2 < of_int (100 * 2 ^ 46 + 1)" using x1 by simp
  then have "\<lfloor>x + 1 / 2\<rfloor> < 100 * 2 ^ 46 + 1" by (simp only: floor_less_iff)
  then have "\<lfloor>x + 1 / 2\<rfloor> \<le> 2 ^ 53" by simp
  ultimately show ?thesis unfolding p int_pct_def by blast
qed

lemma sums_up_step:
  assumes "sums_up st"
    and "strict_ne (newPercentage R T) (lastPercentage st) \<Longrightarrow>
       js_add (lastPercentage st) (js_sub (newPercentage R T) (lastPercentage st)) = newPercentage R T"
  shows "sums_up (report_progress R T st)"
  using assms by (auto simp: sums_up_def report_progress_def Let_def)

lemma on_data_sums_up:
  assumes "1 \<le> b"
    and "s + sum_list (map length cs) \<le> 2 ^ 46"
    and "int_pct (lastPercentage st)"
    and "sums_up st"
  shows "sums_up (snd (on_data report_progress (Num False b) cs (Num False (of_nat s), st)))"
  using assms(2-)
proof (induction cs arbitrary: s st)
  case Nil
  then show ?case by simp
next
  case (Cons c cs)
  define s' where "s' = s + length c"
  define st' where "st' = report_progress (Num False (of_nat s')) (Num False b) st"
  have le: "s' + sum_list (map length cs) \<le> 2 ^ 46" using Cons.prems(1) by (simp add: s'_def)
  then have "s' \<le> 2 ^ 46" by simp
  then have s46: "(of_nat s' :: rat) \<le> 2 ^ 46"
    by (metis of_nat_le_iff of_nat_numeral of_nat_power)
  have "s' \<le> 2 ^ 53" using \<open>s' \<le> 2 ^ 46\<close>
    by (rule order_trans) simp
  then have R': "js_add (Num False (of_nat s)) (Num False (of_nat (length c))) = Num False (of_nat s')"
    unfolding s'_def by (rule js_add_nat)
  have p: "int_pct (newPercentage (Num False (of_nat s')) (Num False b))"
    using s46 assms(1) by (intro newPercentage_int_pct) simp_all
  have "sums_up st'" unfolding st'_def
    using Cons.prems(3) add_sub_int [OF Cons.prems(2) p] by (rule sums_up_step)
  moreover have "int_pct (lastPercentage st')"
    using p Cons.prems(2) by (simp add: st'_def report_progress_def Let_def)
  ultimately have "sums_up (snd (on_data report_progress (Num False b) cs (Num False (of_nat s'), st')))"
    using le by (intro Cons.IH)
  then show ?case by (simp add: R' st'_def Let_def del: js_add.simps)
qed

lemma newPercentage_zero_total:
  assumes "pos_count R"
  shows "newPercentage R (Num False 0) = Infinity False"
  using assms by (cases R) (auto simp: pos_count_def byte_count_def newPercentage_def val_def)

lemma on_data_sums_up_zero:
  assumes "byte_count R"
    and "\<forall>c\<in>set cs. c \<noteq> []"
    and "lastPercentage st = Num False 0 \<or> lastPercentage st = Infinity False"
    and "sums_up st"
  shows "sums_up (snd (on_data report_progress (Num False 0) cs (R, st)))"
  using assms
proof (induction cs arbitrary: R st)
  case Nil
  then show ?case by simp
next
  case (Cons c cs)
  define R' where "R' = js_add R (Num False (of_nat (length c)))"
  define st' where "st' = report_progress R' (Num False 0) st"
  have "0 < length c" using Cons.prems(2) by simp
  from js_add_count [OF Cons.prems(1) this]
  have pc: "pos_count R'" by (simp add: R'_def)
  then have bc: "byte_count R'" by (simp add: pos_count_def)
  have p: "newPercentage R' (Num False 0) = Infinity False" using pc by (rule newPercentage_zero_total)
  have "js_add (lastPercentage st) (js_sub (newPercentage R' (Num False 0)) (lastPercentage st))
      = newPercentage R' (Num False 0)"
    if "strict_ne (newPercentage R' (Num False 0)) (lastPercentage st)"
    using Cons.prems(3) that by (auto simp: p js_sub_def)
  with Cons.prems(4) have "sums_up st'" unfolding st'_def by (rule sums_up_step)
  moreover have "lastPercentage st' = Num False 0 \<or> lastPercentage st' = Infinity False"
    using Cons.prems(3) by (auto simp: st'_def report_progress_def Let_def p)
  ultimately have "sums_up (snd (on_data report_progress (Num False 0) cs (R', st')))"
    using bc Cons.prems(2) by (intro Cons.IH) simp_all
  then show ?case by (simp add: R'_def st'_def Let_def del: js_add.simps)
qed

section \<open>A payload of 1048576 bytes\<close>

lemma fl_exact:
  assumes "0 < m" and "m < 2 ^ 53" and "- 1074 \<le> k" and "of_int m * 2 powi k \<le> (2::rat) ^ 53"
  shows "fl s (of_int m * 2 powi k) = Num s (of_int m * 2 powi k)"
  using round_to_ulp_exact [OF assms(1-3)] not_overflow [OF assms(4)]
  by (simp add: fl_def to_double_def Let_def)

lemma newPercentage_1MiB:
  assumes "s \<le> 1048576"
  shows "newPercentage (Num False (of_nat s)) (Num False 1048576) = Num False (of_nat (pct1 s))"
proof (cases "s = 0")
  case True
  have "fl False 0 = Num False 0" using fl_int [of 0 False] by simp
  moreover have "\<lfloor>1 / 2 :: rat\<rfloor> = 0" by (simp add: floor_eq_iff)
  ultimately show ?thesis using True by (simp add: newPercentage_def pct1_def)
next
  case False
  then have s0: "0 < int s" by simp
  have s1: "int s \<le> 1048576" using assms by simp
  have e: "(2::rat) powi (- 20) = 1 / 1048576" by (simp add: power_int_minus)
  have "fl False (of_int (int s) * 2 powi (- 20)) = Num False (of_int (int s) * 2 powi (- 20))"
    using s0 s1 by (intro fl_exact) (simp_all add: e)
  then have d: "js_div (Num False (of_nat s)) (Num False 1048576) = Num False (of_nat s / 1048576)"
    by (simp add: e)
  have "fl False (of_int (int (100 * s)) * 2 powi (- 20)) = Num False (of_int (int (100 * s)) * 2 powi (- 20))"
    using s0 s1 by (intro fl_exact) (simp_all add: e)
  then have m: "js_mul (Num False (of_nat s / 1048576)) (Num False 100) = Num False (of_nat (100 * s) / 1048576)"
    by (simp add: e mult.commute)
  have "(of_nat (100 * s) / 1048576 + 1 / 2 :: rat) = of_nat (200 * s + 1048576) / of_nat 2097152"
    by (simp add: field_simps)
  then have "\<lfloor>(of_nat (100 * s) / 1048576 + 1 / 2 :: rat)\<rfloor> = int (pct1 s)"
    unfolding pct1_def by (simp only: floor_divide_of_nat_eq)
  then show ?thesis unfolding newPercentage_def d m by simp
qed

lemma pct1_mono: "s \<le> t \<Longrightarrow> pct1 s \<le> pct1 t"
  unfolding pct1_def by (intro div_le_mono) simp

lemma pct1_le_100: "s \<le> 1048576 \<Longrightarrow> pct1 s \<le> 100"
  using pct1_mono [of s 1048576] by (simp add: pct1_def)

lemma on_data_computed:
  assumes "s + sum_list (map length cs) \<le> 1048576"
  shows "snd (on_data (\<lambda>readBytes totalBytes acc. acc @ [newPercentage readBytes totalBytes])
            (Num False 1048576) cs (Num False (of_nat s), acc))
         = acc @ percents (map pct1 (totals s cs))"
  using assms
proof (induction cs arbitrary: s acc)
  case Nil
  then show ?case by (simp add: percents_def)
next
  case (Cons c cs)
  define s' where "s' = s + length c"
  have le: "s' + sum_list (map length cs) \<le> 1048576" using Cons.prems by (simp add: s'_def)
  then have s1: "s' \<le> 1048576" by simp
  then have "s' \<le> 2 ^ 53" by simp
  then have R': "js_add (Num False (of_nat s)) (Num False (of_nat (length c))) = Num False (of_nat s')"
    unfolding s'_def by (rule js_add_nat)
  show ?case
    using Cons.IH [OF le, of "acc @ [newPercentage (Num False (of_nat s')) (Num False 1048576)]"]
    by (simp add: R' Let_def newPercentage_1MiB [OF s1] percents_def s'_def [symmetric] del: js_add.simps)
qed

lemma on_data_reported:
  assumes "s + sum_list (map length cs) \<le> 1048576"
    and "lastPercentage st = Num False (of_nat l)"
  shows "map percentage (reported (snd (on_data report_progress (Num False 1048576) cs
            (Num False (of_nat s), st))))
         = map percentage (reported st) @ percents (emit l (map pct1 (totals s cs)))"
  using assms
proof (induction cs arbitrary: s st l)
  case Nil
  then show ?case by (simp add: percents_def)
next
  case (Cons c cs)
  define s' where "s' = s + length c"
  define st' where "st' = report_progress (Num False (of_nat s')) (Num False 1048576) st"
  have le: "s' + sum_list (map length cs) \<le> 1048576" using Cons.prems(1) by (simp add: s'_def)
  then have s1: "s' \<le> 1048576" by simp
  then have "s' \<le> 2 ^ 53" by simp
  then have R': "js_add (Num False (of_nat s)) (Num False (of_nat (length c))) = Num False (of_nat s')"
    unfolding s'_def by (rule js_add_nat)
  have step: "on_data report_progress (Num False 1048576) (c # cs) (Num False (of_nat s), st)
      = on_data report_progress (Num False 1048576) cs (Num False (of_nat s'), st')"
    by (simp add: R' st'_def Let_def del: js_add.simps)
  show ?case
  proof (cases "pct1 s' = l")
    case True
    then have "st' = st"
      by (simp add: st'_def report_progress_def newPercentage_1MiB [OF s1] Cons.prems(2) val_def)
    then show ?thesis
      using Cons.IH [OF le, of st l] Cons.prems(2) True
      unfolding step by (simp add: s'_def [symmetric])
  next
    case False
    then have L: "lastPercentage st' = Num False (of_nat (pct1 s'))"
      and r: "map percentage (reported st') = map percentage (reported st) @ [Num False (of_nat (pct1 s'))]"
      by (simp_all add: st'_def report_progress_def newPercentage_1MiB [OF s1] Cons.prems(2) val_def Let_def)
    show ?thesis
      using Cons.IH [OF le L] False
      unfolding step by (simp add: r s'_def [symmetric] percents_def)
  qed
qed

lemma emit_sorted:
  assumes "sorted (l # ks)"
  shows "sorted_wrt (<) (l # emit l ks) \<and> set (emit l ks) = set ks - {l}"
  using assms
proof (induction ks arbitrary: l)
  case Nil
  then show ?case by simp
next
  case (Cons k ks)
  show ?case
  proof (cases "k = l")
    case True
    then show ?thesis using Cons.IH [of l] Cons.prems by auto
  next
    case False
    then have lk: "l < k" using Cons.prems by simp
    have "sorted (k # ks)" using Cons.prems by simp
    from Cons.IH [OF this]
    have ih: "sorted_wrt (<) (k # emit k ks)" "set (emit k ks) = set ks - {k}" by simp_all
    have ge: "\<forall>x\<in>set ks. k \<le> x" using Cons.prems by simp
    then have "\<forall>x\<in>set ks. l < x" using lk by auto
    then show ?thesis using False lk ih by auto
  qed
qed

lemma totals_bounds:
  "t \<in> set (totals s cs) \<Longrightarrow> s \<le> t \<and> t \<le> s + sum_list (map length cs)"
  by (induction cs arbitrary: s) fastforce+

lemma sorted_totals: "sorted (s # totals s cs)"
proof (induction cs arbitrary: s)
  case Nil
  then show ?case by simp
next
  case (Cons c cs)
  have "\<forall>t\<in>set (totals (s + length c) cs). s \<le> t"
    using totals_bounds [of _ "s + length c" cs] by fastforce
  then show ?case using Cons.IH [of "s + length c"] by simp
qed

lemma sorted_map_pct1: "sorted xs \<Longrightarrow> sorted (map pct1 xs)"
  by (induction xs) (auto simp: pct1_mono)

lemma totals_replicate:
  "totals s (replicate n c @ cs) = map (\<lambda>i. s + i * length c) [1..<Suc n] @ totals (s + n * length c) cs"
proof (induction n arbitrary: s)
  case 0
  then show ?case by simp
next
  case (Suc n)
  have "map (\<lambda>i. s + i * length c) [1..<Suc (Suc n)]
      = (s + length c) # map (\<lambda>i. s + length c + i * length c) [1..<Suc n]"
    by (simp add: upt_conv_Cons map_Suc_upt [symmetric] del: upt_Suc)
  then show ?case using Suc.IH [of "s + length c"] by (simp add: add.assoc del: upt_Suc)
qed

lemma chunks_1MiB_length: "sum_list (map length chunks_1MiB) = 1048576"
  by (simp add: chunks_1MiB_def sum_list_replicate)

lemma chunks_1MiB_percentages: "map pct1 (totals 0 chunks_1MiB) = [0..<101]"
  unfolding chunks_1MiB_def
  by (simp add: totals_replicate pct1_def upt_conv_Cons)

lemma emit_0_to_100: "emit 0 [0..<101] = [1..<101]"
  by (simp add: upt_conv_Cons)

lemma chunks_1MiB_nonempty: "[] \<notin> set chunks_1MiB"
  by (simp add: chunks_1MiB_def)

lemma chunks_1MiB_computed:
  "computed_percentages (Num False 1048576) chunks_1MiB = percents [0..<101]"
  unfolding computed_percentages_def
  using on_data_computed [of 0 chunks_1MiB "[]"]
  by (simp add: chunks_1MiB_length chunks_1MiB_percentages)

lemma chunks_1MiB_reported:
  "map percentage (reported (snd (on_data report_progress (Num False 1048576) chunks_1MiB
      (Num False 0, initial_progress)))) = percents [1..<101]"
  using on_data_reported [of 0 chunks_1MiB initial_progress 0]
  by (simp add: chunks_1MiB_length chunks_1MiB_percentages emit_0_to_100 initial_progress_def)

lemma percents_inj: "percents xs = percents ys \<Longrightarrow> xs = ys"
  using map_injective [of "\<lambda>k. Num False (of_nat k)" xs ys]
  by (simp add: percents_def inj_on_def)

lemma length_percents: "length (percents ks) = length ks"
  by (simp add: percents_def)

lemma percents_mem: "Num False (of_nat k) \<in> set (percents ks) \<longleftrightarrow> k \<in> set ks"
  by (auto simp: percents_def)

section \<open>Results on the progress callback\<close>




text \<open>
  C4. Within one download the total is fixed and the count of bytes read grows with
  every chunk. When the total is a finite non-negative Number and no chunk is empty,
  the percentages of the reports, in the order in which the sink receives them, are
  strictly increasing: the sequence never decreases and no percentage occurs twice.
\<close>

theorem progress_strictly_increasing:
  assumes "0 \<le> b" and "[] \<notin> set chunks"
  shows "sorted_wrt js_lt (map percentage (reported (snd
           (on_data report_progress (Num False b) chunks (Num False 0, initial_progress)))))
       \<and> sorted_wrt js_le (map percentage (reported (snd
           (on_data report_progress (Num False b) chunks (Num False 0, initial_progress)))))
       \<and> distinct (map percentage (reported (snd
           (on_data report_progress (Num False b) chunks (Num False 0, initial_progress)))))"
proof -
  let ?ps = "map percentage (reported (snd
           (on_data report_progress (Num False b) chunks (Num False 0, initial_progress))))"
  have ne: "\<forall>c\<in>set chunks. c \<noteq> []" using assms(2) by auto
  have "sorted_wrt js_lt ?ps"
  proof (rule on_data_increasing [OF assms(1) _ ne])
    show "byte_count (Num False 0)" by (simp add: byte_count_def)
    show "sorted_wrt js_lt (map percentage (reported initial_progress))"
      by (simp add: initial_progress_def)
    show "\<forall>x\<in>set (reported initial_progress). js_le (percentage x) (lastPercentage initial_progress)"
      by (simp add: initial_progress_def)
    show "\<forall>R'. pos_count R' \<longrightarrow> js_le (Num False 0) R' \<longrightarrow>
        js_le (lastPercentage initial_progress) (newPercentage R' (Num False b))"
      using nonneg_newPercentage [OF _ assms(1)] nonneg_zero_le
      by (simp add: initial_progress_def)
  qed
  moreover from this have "sorted_wrt js_le ?ps"
    by (rule sorted_wrt_mono_rel [rotated]) (rule js_lt_imp_le)
  moreover from \<open>sorted_wrt js_lt ?ps\<close> have "distinct ?ps"
    by (rule sorted_wrt_js_lt_distinct)
  ultimately show ?thesis by simp
qed

theorem progress_strictly_increasing_witness:
  "(0::rat) \<le> 1048576 \<and> [] \<notin> set chunks_1MiB
   \<and> map percentage (reported (snd (on_data report_progress (Num False 1048576) chunks_1MiB
        (Num False 0, initial_progress)))) = percents [1..<101]
   \<and> sorted_wrt js_lt (percents [1..<101])
   \<and> distinct (percents [1..<101])"
  using progress_strictly_increasing [of 1048576 chunks_1MiB]
  by (simp add: chunks_1MiB_nonempty chunks_1MiB_reported)

text \<open>
  C5, as the specification states it, fails. The payload of 1048576 bytes arrives in
  the chunks of \<open>chunks_1MiB\<close>, and the callback computes every integer percentage from
  0 to 100, one after the other. The sink receives the percentages from 1 to 100:
  there is no report for 0, and there are 100 reports, not 101.
\<close>

theorem no_report_for_zero_counterexample:
  "sum_list (map length chunks_1MiB) = 1048576
   \<and> computed_percentages (Num False 1048576) chunks_1MiB = percents [0..<101]
   \<and> map percentage (reported (snd (on_data report_progress (Num False 1048576) chunks_1MiB
        (Num False 0, initial_progress)))) \<noteq> percents [0..<101]
   \<and> Num False 0 \<notin> set (map percentage (reported (snd (on_data report_progress
        (Num False 1048576) chunks_1MiB (Num False 0, initial_progress)))))
   \<and> length (reported (snd (on_data report_progress (Num False 1048576) chunks_1MiB
        (Num False 0, initial_progress)))) = 100"
proof -
  let ?ps = "map percentage (reported (snd (on_data report_progress (Num False 1048576)
        chunks_1MiB (Num False 0, initial_progress))))"
  have r: "?ps = percents [1..<101]" by (rule chunks_1MiB_reported)
  have "length [1..<101] \<noteq> length [0..<101]" by simp
  then have "[1..<101] \<noteq> [0..<101]" by metis
  then have a: "?ps \<noteq> percents [0..<101]" using percents_inj unfolding r by blast
  have "Num False (of_nat 0) \<notin> set (percents [1..<101])" by (simp only: percents_mem) simp
  then have b: "Num False 0 \<notin> set ?ps" unfolding r by simp
  have "length ?ps = 100" unfolding r by (simp add: length_percents)
  then have c: "length (reported (snd (on_data report_progress (Num False 1048576) chunks_1MiB
        (Num False 0, initial_progress)))) = 100" by simp
  from a b c show ?thesis by (simp add: chunks_1MiB_length chunks_1MiB_computed)
qed

text \<open>
  C5, amended. For a payload of 1048576 bytes with that content length, delivered
  whole in chunks such that the callback computes every integer percentage from 1 to
  100, the sink receives exactly one report for each integer percentage from 1 to
  100, in increasing order, and none for 0.
\<close>

theorem one_report_per_point_from_1_to_100:
  assumes "sum_list (map length chunks) = 1048576"
    and "set (percents [1..<101]) \<subseteq> set (computed_percentages (Num False 1048576) chunks)"
  shows "map percentage (reported (snd (on_data report_progress (Num False 1048576) chunks
            (Num False 0, initial_progress)))) = percents [1..<101]"
proof -
  define ks where "ks = map pct1 (totals 0 chunks)"
  have le: "0 + sum_list (map length chunks) \<le> 1048576" using assms(1) by simp
  have comp: "computed_percentages (Num False 1048576) chunks = percents ks"
    unfolding computed_percentages_def ks_def
    using on_data_computed [OF le, of "[]"] by simp
  have rep: "map percentage (reported (snd (on_data report_progress (Num False 1048576) chunks
            (Num False 0, initial_progress)))) = percents (emit 0 ks)"
    unfolding ks_def
    using on_data_reported [OF le, of initial_progress 0] by (simp add: initial_progress_def)
  have sub: "{1..100} \<subseteq> set ks"
  proof
    fix k :: nat assume "k \<in> {1..100}"
    then have "k \<in> set [1..<101]" by simp
    then have "Num False (of_nat k) \<in> set (percents [1..<101])" by (simp only: percents_mem)
    with assms(2) have "Num False (of_nat k) \<in> set (percents ks)" unfolding comp by blast
    then show "k \<in> set ks" by (simp only: percents_mem)
  qed
  have up: "set ks \<subseteq> {0..100}"
  proof
    fix k assume "k \<in> set ks"
    then obtain t where t: "t \<in> set (totals 0 chunks)" "k = pct1 t" by (auto simp: ks_def)
    from totals_bounds [OF t(1)] assms(1) have "t \<le> 1048576" by simp
    then show "k \<in> {0..100}" using pct1_le_100 [of t] t(2) by simp
  qed
  have "sorted (map pct1 (0 # totals 0 chunks))"
    using sorted_totals [of 0 chunks] by (rule sorted_map_pct1)
  moreover have "pct1 0 = 0" by (simp add: pct1_def)
  ultimately have "sorted (0 # ks)" by (simp add: ks_def)
  from emit_sorted [OF this]
  have s: "sorted_wrt (<) (emit 0 ks)" and e: "set (emit 0 ks) = set ks - {0}" by simp_all
  have "set (emit 0 ks) = {1..<101}" using e sub up by auto
  moreover have "sorted (emit 0 ks)" "distinct (emit 0 ks)"
    using s by (simp_all add: strict_sorted_iff)
  ultimately have "emit 0 ks = [1..<101]"
    by (intro sorted_distinct_set_unique) simp_all
  then show ?thesis by (simp only: rep)
qed

theorem one_report_per_point_from_1_to_100_witness:
  "sum_list (map length chunks_1MiB) = 1048576
   \<and> set (percents [1..<101]) \<subseteq> set (computed_percentages (Num False 1048576) chunks_1MiB)
   \<and> map percentage (reported (snd (on_data report_progress (Num False 1048576) chunks_1MiB
        (Num False 0, initial_progress)))) = percents [1..<101]"
proof -
  have 1: "sum_list (map length chunks_1MiB) = 1048576" by (rule chunks_1MiB_length)
  have "set [1..<101] \<subseteq> set [0..<101]" by auto
  then have 2: "set (percents [1..<101])
      \<subseteq> set (computed_percentages (Num False 1048576) chunks_1MiB)"
    unfolding chunks_1MiB_computed percents_def by auto
  from 1 2 one_report_per_point_from_1_to_100 [OF 1 2] show ?thesis by simp
qed

text \<open>
  C9. When the content length is a non-negative integer, no chunk is empty and at
  most \<open>2 ^ 46\<close> bytes are read, the increments of the reports, added up from 0 with
  the Number addition, give the value of \<^verbatim>\<open>lastPercentage\<close> at the end, and that value
  is the percentage of the last report when there is a report.
\<close>

theorem increments_sum_to_last_percentage:
  assumes "[] \<notin> set chunks" and "sum_list (map length chunks) \<le> 2 ^ 46"
    and "st = snd (on_data report_progress (Num False (of_nat n)) chunks
           (Num False 0, initial_progress))"
  shows "foldl js_add (Num False 0) (map increment (reported st)) = lastPercentage st
       \<and> (reported st = [] \<or> percentage (last (reported st)) = lastPercentage st)"
proof -
  have ne: "\<forall>c\<in>set chunks. c \<noteq> []" using assms(1) by auto
  have "sums_up st"
  proof (cases "n = 0")
    case True
    have "sums_up (snd (on_data report_progress (Num False 0) chunks (Num False 0, initial_progress)))"
      using ne
      by (intro on_data_sums_up_zero) (simp_all add: byte_count_def initial_progress_def sums_up_def)
    then show ?thesis using True by (simp add: assms(3))
  next
    case False
    then have "(1::rat) \<le> of_nat n" by simp
    moreover have "int_pct (lastPercentage initial_progress)"
      unfolding int_pct_def initial_progress_def by (intro exI [of _ 0]) simp
    moreover have "sums_up initial_progress" by (simp add: sums_up_def initial_progress_def)
    ultimately have "sums_up (snd (on_data report_progress (Num False (of_nat n)) chunks
             (Num False (of_nat 0), initial_progress)))"
      using assms(2) by (intro on_data_sums_up) simp_all
    then show ?thesis by (simp add: assms(3))
  qed
  then show ?thesis by (simp add: sums_up_def)
qed

theorem increments_sum_to_last_percentage_witness:
  "[] \<notin> set chunks_1MiB \<and> sum_list (map length chunks_1MiB) \<le> 2 ^ 46
   \<and> reported (snd (on_data report_progress (Num False (of_nat 1048576)) chunks_1MiB
        (Num False 0, initial_progress))) \<noteq> []
   \<and> foldl js_add (Num False 0) (map increment (reported (snd (on_data report_progress
        (Num False (of_nat 1048576)) chunks_1MiB (Num False 0, initial_progress)))))
       = percentage (last (reported (snd (on_data report_progress
        (Num False (of_nat 1048576)) chunks_1MiB (Num False 0, initial_progress)))))"
proof -
  let ?st = "snd (on_data report_progress (Num False (of_nat 1048576)) chunks_1MiB
        (Num False 0, initial_progress))"
  have 1: "[] \<notin> set chunks_1MiB" by (rule chunks_1MiB_nonempty)
  have 2: "sum_list (map length chunks_1MiB) \<le> 2 ^ 46" by (simp add: chunks_1MiB_length)
  have "map percentage (reported ?st) = percents [1..<101]"
    using chunks_1MiB_reported by simp
  then have "length (map percentage (reported ?st)) = length (percents [1..<101])"
    by (simp only:)
  then have "length (reported ?st) = 100" by (simp add: length_percents)
  then have 3: "reported ?st \<noteq> []" by auto
  from 1 2 3 increments_sum_to_last_percentage [OF 1 2 refl, of 1048576] show ?thesis
    by simp
qed

section \<open>Strings, paths and the platform in memory\<close>

lemma fl_numeral:
  "numeral k \<le> (2::int) ^ 53 \<Longrightarrow> fl s (numeral k) = Num s (numeral k)"
  using fl_int [of "numeral k" s] by simp




lemma dec_404: "dec 404 = ''404''"
  by (simp add: dec.simps digit_char_def)



lemma starts_with_iff: "starts_with p s \<longleftrightarrow> (\<exists>ys. s = p @ ys)"
proof (induction p s rule: starts_with.induct)
  case (1 s) show ?case by simp
next
  case (2 p ps) show ?case by simp
next
  case (3 p ps c cs) then show ?case by auto
qed

lemma str_includes_iff: "str_includes e pat \<longleftrightarrow> (\<exists>xs ys. e = xs @ pat @ ys)"
proof (induction e)
  case Nil
  show ?case by auto
next
  case (Cons c cs)
  show ?case
  proof
    assume "str_includes (c # cs) pat"
    then consider "starts_with pat (c # cs)" | "str_includes cs pat" by auto
    then show "\<exists>xs ys. c # cs = xs @ pat @ ys"
    proof cases
      case 1
      then obtain ys where "c # cs = pat @ ys" by (auto simp: starts_with_iff)
      then have "c # cs = [] @ pat @ ys" by simp
      then show ?thesis by blast
    next
      case 2
      then obtain xs ys where "cs = xs @ pat @ ys" using Cons.IH by auto
      then have "c # cs = (c # xs) @ pat @ ys" by simp
      then show ?thesis by blast
    qed
  next
    assume "\<exists>xs ys. c # cs = xs @ pat @ ys"
    then obtain xs ys where e: "c # cs = xs @ pat @ ys" by auto
    show "str_includes (c # cs) pat"
    proof (cases xs)
      case Nil
      then have "starts_with pat (c # cs)" using e by (auto simp: starts_with_iff)
      then show ?thesis by simp
    next
      case (Cons x xs')
      then have "cs = xs' @ pat @ ys" using e by simp
      then have "str_includes cs pat" using Cons.IH by auto
      then show ?thesis by simp
    qed
  qed
qed

lemma displaced_name_included:
  "displaced_name stem extension e \<Longrightarrow> str_includes e (stem @ ''-stale-'')"
proof -
  assume "displaced_name stem extension e"
  then obtain token where "e = stem @ ''-stale-'' @ token @ extension"
    by (auto simp: displaced_name_def)
  then have "e = [] @ (stem @ ''-stale-'') @ (token @ extension)" by simp
  then show ?thesis unfolding str_includes_iff by blast
qed

lemma remove_entries_filter:
  "remove_entries P d stem entries w
     = foldl (\<lambda>v e. delete_entry P d e v) w
         (filter (\<lambda>e. str_includes e (stem @ ''-stale-'')) (map fst entries))"
  by (induction entries arbitrary: w) (auto simp: remove_entry_def)

lemma delete_entry_logs_once:
  "length (logged (delete_entry P d e v)) = Suc (length (logged v))"
  by (simp add: delete_entry_def Let_def log_info_def log_error_def split: prod.splits option.splits)

lemma takeWhile_stop:
  "\<forall>c\<in>set xs. P c \<Longrightarrow> \<not> P y \<Longrightarrow> takeWhile P (xs @ y # ys) = xs"
  by (simp add: takeWhile_tail)

lemma posix_parse_join:
  assumes "d \<noteq> []" and "hd d = CHR ''/''"
    and "n \<noteq> []" and "CHR ''/'' \<notin> set n" and "CHR ''.'' \<notin> set n"
    and "CHR ''/'' \<notin> set e" and "e = [] \<or> (hd e = CHR ''.'' \<and> CHR ''.'' \<notin> set (tl e))"
  shows "posix_parse (d @ ''/'' @ n @ e)
     = \<lparr>root = ''/'', dir = d, base = n @ e, ext = e, name = n\<rparr>"
proof -
  define p where "p = d @ ''/'' @ n @ e"
  define b where "b = n @ e"
  have p0: "p \<noteq> []" and hp: "hd p = CHR ''/''" using assms(1,2) by (simp_all add: p_def)
  have tp: "tl p = tl d @ ''/'' @ b" using assms(1) by (simp add: p_def b_def)
  have b0: "b \<noteq> []" using assms(3) by (simp add: b_def)
  have bs: "\<forall>c\<in>set (rev b). c \<noteq> CHR ''/''" using assms(4,6) by (auto simp: b_def)
  have rv: "rev (tl p) = rev b @ CHR ''/'' # rev (tl d)" by (simp add: tp)
  have "rev b \<noteq> []" using b0 by simp
  then have "hd (rev b) \<noteq> CHR ''/''" using bs by (cases "rev b") auto
  then have "dropWhile (\<lambda>c. c = CHR ''/'') (rev (tl p)) = rev (tl p)"
    unfolding rv using \<open>rev b \<noteq> []\<close> by (cases "rev b") auto
  then have kept: "rev (dropWhile (\<lambda>c. c = CHR ''/'') (rev (tl p))) = tl p" by simp
  have "takeWhile (\<lambda>c. c \<noteq> CHR ''/'') (rev (tl p)) = rev b"
    unfolding rv using bs by (intro takeWhile_stop) auto
  then have base: "rev (takeWhile (\<lambda>c. c \<noteq> CHR ''/'') (rev (tl p))) = b" by simp
  have lk: "length (tl p) = length d + length b" using assms(1) by (simp add: tp)
  have dd: "take (length d) p = d" by (simp add: p_def)
  have ext: "(if CHR ''.'' \<notin> set b
                \<or> length b - 1 - length (takeWhile (\<lambda>c. c \<noteq> CHR ''.'') (rev b)) = 0
                \<or> b = ''..'' then [] else
              drop (length b - 1 - length (takeWhile (\<lambda>c. c \<noteq> CHR ''.'') (rev b))) b) = e"
    and nm: "(if CHR ''.'' \<notin> set b
                \<or> length b - 1 - length (takeWhile (\<lambda>c. c \<noteq> CHR ''.'') (rev b)) = 0
                \<or> b = ''..'' then b else
              take (length b - 1 - length (takeWhile (\<lambda>c. c \<noteq> CHR ''.'') (rev b))) b) = n"
  proof -
    have "(if CHR ''.'' \<notin> set b
                \<or> length b - 1 - length (takeWhile (\<lambda>c. c \<noteq> CHR ''.'') (rev b)) = 0
                \<or> b = ''..'' then [] else
              drop (length b - 1 - length (takeWhile (\<lambda>c. c \<noteq> CHR ''.'') (rev b))) b) = e
      \<and> (if CHR ''.'' \<notin> set b
                \<or> length b - 1 - length (takeWhile (\<lambda>c. c \<noteq> CHR ''.'') (rev b)) = 0
                \<or> b = ''..'' then b else
              take (length b - 1 - length (takeWhile (\<lambda>c. c \<noteq> CHR ''.'') (rev b))) b) = n"
    proof (cases "e = []")
      case True
      then show ?thesis using assms(5) by (simp add: b_def)
    next
      case False
      then obtain e' where e: "e = CHR ''.'' # e'" "CHR ''.'' \<notin> set e'"
        using assms(7) by (cases e) auto
      have "rev b = rev e' @ CHR ''.'' # rev n" by (simp add: b_def e)
      then have "takeWhile (\<lambda>c. c \<noteq> CHR ''.'') (rev b) = rev e'"
        using e(2) by (simp only:) (intro takeWhile_stop, auto)
      then have sd: "length b - 1 - length (takeWhile (\<lambda>c. c \<noteq> CHR ''.'') (rev b)) = length n"
        by (simp add: b_def e)
      have "hd b \<noteq> CHR ''.''" using assms(3,5) by (cases n) (auto simp: b_def)
      then have "b \<noteq> ''..''" by auto
      moreover have "CHR ''.'' \<in> set b" by (simp add: b_def e)
      moreover have "length n \<noteq> 0" using assms(3) by simp
      ultimately show ?thesis unfolding sd by (simp add: b_def)
    qed
    then show "(if CHR ''.'' \<notin> set b
                \<or> length b - 1 - length (takeWhile (\<lambda>c. c \<noteq> CHR ''.'') (rev b)) = 0
                \<or> b = ''..'' then [] else
              drop (length b - 1 - length (takeWhile (\<lambda>c. c \<noteq> CHR ''.'') (rev b))) b) = e"
      and "(if CHR ''.'' \<notin> set b
                \<or> length b - 1 - length (takeWhile (\<lambda>c. c \<noteq> CHR ''.'') (rev b)) = 0
                \<or> b = ''..'' then b else
              take (length b - 1 - length (takeWhile (\<lambda>c. c \<noteq> CHR ''.'') (rev b))) b) = n"
      by simp_all
  qed
  have lp: "length p = length d + 1 + length b" by (simp add: p_def b_def)
  have sp: "1 + length (tl p) - length b - 1 = length d" using lp by simp
  have lt: "length b < length (tl p)" using assms(1) lp by simp
  have "posix_parse p = \<lparr>root = ''/'', dir = d, base = b, ext = e, name = n\<rparr>"
  proof -
    have p0': "(p = []) = False" using p0 by simp
    have hp': "(hd p = CHR ''/'') = True" using hp by simp
    have lt': "(length b < length (tl p)) = True" using lt by simp
    show ?thesis
      unfolding posix_parse_def Let_def
      by (simp only: p0' hp' if_True if_False kept base ext nm sp lt' dd)
  qed
  then show ?thesis by (simp only: p_def b_def)
qed

lemma response_without_length_sel:
  "status response_without_length = 200"
  "body_chunks response_without_length = [[104, 105, 33]]"
  by (simp_all add: response_without_length_def)

lemma headers_none: "headers_get (headers response_without_length) ''content-length'' = None"
  by (simp add: response_without_length_def headers_get_def)

lemma progress_without_length:
  "on_data report_progress (Num False 0) [[104, 105, 33]] (Num False 0, initial_progress)
     = (Num False 3, \<lparr>lastPercentage = Infinity False,
          reported = [\<lparr>percentage = Infinity False, increment = Infinity False\<rparr>]\<rparr>)"
  by (simp add: report_progress_def newPercentage_def initial_progress_def val_def js_sub_def
      Let_def fl_numeral)

lemma downloadFile_without_length:
  "downloadFile (mem_platform (\<lambda>u init. Inr response_without_length)) asset_url
     (mem_file ''/opt/tool/tool0123456789'') (Some 493) False None
     report_progress initial_progress installed
   = (Inr (),
      \<lparr>lastPercentage = Infinity False,
       reported = [\<lparr>percentage = Infinity False, increment = Infinity False\<rparr>]\<rparr>,
      \<lparr>fs = \<lparr>files = [(''/opt/tool/tool0123456789'', [104, 105, 33]), (''/opt/tool/tool'', [9])],
             locked = []\<rparr>,
       logged = [(Debug, [LStr ''Downloading file of'', LNum (Num False 0),
                          LStr ''bytes size from'', LStr ''https://x/tool-linux'',
                          LStr ''to'', LStr ''/opt/tool/tool0123456789''])],
       notifications = []\<rparr>)"
  unfolding downloadFile_def
  by (simp add: mem_platform_def truthy_def ok_def headers_none Number_def assert_def
      response_without_length_sel progress_without_length Let_def
      asset_url_def installed_def mem_file_def log_debug_def mem_pipeline_def without_def
      del: on_data.simps)

lemma mem_platform_sel:
  "fetch (mem_platform net) = net"
  "pipeline (mem_platform net) = mem_pipeline"
  "fs_rename (mem_platform net) = mem_rename"
  "fs_readDirectory (mem_platform net) = mem_readDirectory"
  "fs_delete (mem_platform net) = mem_delete"
  "path_parse (mem_platform net) = posix_parse"
  "Uri_file (mem_platform net) = mem_file"
  "Uri_joinPath (mem_platform net) = mem_joinPath"
  by (simp_all add: mem_platform_def)

lemma parse_tool:
  "posix_parse ''/opt/tool/tool''
     = \<lparr>root = ''/'', dir = ''/opt/tool'', base = ''tool'', ext = [], name = ''tool''\<rparr>"
  using posix_parse_join [of "''/opt/tool''" "''tool''" "[]"] by simp

lemma tool_paths:
  "rawDest (mem_platform net) tool_opts
     = \<lparr>root = ''/'', dir = ''/opt/tool'', base = ''tool'', ext = [], name = ''tool''\<rparr>"
  "tempFilePath (mem_platform net) ''0123456789'' tool_opts = mem_file ''/opt/tool/tool0123456789''"
  "oldServerPath (mem_platform net) ''0123456789'' tool_opts
     = mem_file ''/opt/tool/tool-stale-0123456789''"
  by (simp_all add: rawDest_def tempFilePath_def oldServerPath_def mem_platform_sel tool_opts_def
      mem_file_def mem_joinPath_def parse_tool)

lemma tool_opts_sel:
  "url tool_opts = asset_url" "dest tool_opts = mem_file ''/opt/tool/tool''"
  "mode tool_opts = Some 493" "gunzip tool_opts = None" "httpProxy tool_opts = None"
  "progressTitle tool_opts = ''Downloading''"
  by (simp_all add: tool_opts_def)

lemma download_stage_in_use:
  "downloadFile (mem_platform (\<lambda>u init. Inr response_without_length)) asset_url
     (mem_file ''/opt/tool/tool0123456789'') (Some 493) False None
     report_progress initial_progress in_use
   = (Inr (),
      \<lparr>lastPercentage = Infinity False,
       reported = [\<lparr>percentage = Infinity False, increment = Infinity False\<rparr>]\<rparr>,
      \<lparr>fs = \<lparr>files = [(''/opt/tool/tool0123456789'', [104, 105, 33]), (''/opt/tool/tool'', [9])],
             locked = [''/opt/tool/tool'']\<rparr>,
       logged = [(Debug, [LStr ''Downloading file of'', LNum (Num False 0),
                          LStr ''bytes size from'', LStr ''https://x/tool-linux'',
                          LStr ''to'', LStr ''/opt/tool/tool0123456789''])],
       notifications = []\<rparr>)"
  unfolding downloadFile_def
  by (simp add: mem_platform_def truthy_def ok_def headers_none Number_def assert_def
      response_without_length_sel progress_without_length Let_def
      asset_url_def in_use_def mem_file_def log_debug_def mem_pipeline_def without_def
      del: on_data.simps)

lemma download_in_use:
  "download (mem_platform (\<lambda>u init. Inr response_without_length)) ''0123456789'' tool_opts in_use
   = (Inr (),
      \<lparr>fs = \<lparr>files = [(''/opt/tool/tool0123456789'', [104, 105, 33]), (''/opt/tool/tool'', [9])],
             locked = [''/opt/tool/tool'']\<rparr>,
       logged = [(Debug, [LStr ''Downloading file of'', LNum (Num False 0),
                          LStr ''bytes size from'', LStr ''https://x/tool-linux'',
                          LStr ''to'', LStr ''/opt/tool/tool0123456789'']),
                 (Err, [LStr ''Cannot rename existing server instance: NoPermissions (FileSystemError)'']),
                 (Err, [LStr ''Cannot update server binary: NoPermissions (FileSystemError)''])],
       notifications = [(''Downloading'',
          [\<lparr>percentage = Infinity False, increment = Infinity False\<rparr>])]\<rparr>)"
  unfolding download_def tool_paths tool_opts_sel
  apply (simp add: download_stage_in_use)
  apply (simp add: rename_old_def rename_new_def remove_stale_def tool_paths
      mem_platform_sel mem_rename_def mem_file_def no_permissions_def truthy_def
      log_error_def mem_readDirectory_def Let_def remove_entry_def)
  done

lemma response_404_sel:
  "status response_404 = 404" "body_text response_404 = Inr ''Not Found''"
  "\<not> ok response_404"
  by (simp_all add: response_404_def ok_def)

lemma Number_examples:
  "Number None = Num False 0"
  "Number (Some []) = Num False 0"
  "Number (Some ''1048576'') = Num False 1048576"
  "Number (Some ''-5'') = Num True 5"
  "Number (Some ''abc'') = NaN"
  by (simp_all add: Number_def StringToNumber_def trim_def is_space_def str_decimal_def
      is_digit_def digit_of_def exponent_part_def digits_value_def Let_def fl_numeral)

lemma invalid_content_length_fails_before_write:
  assumes "\<And>init. fetch P (toString u) init = Inr res"
    and "ok res"
    and "Number (headers_get (headers res) ''content-length'') = NaN"
  shows "fst (downloadFile P u destFilePath md gz proxy cb st w)
           = Inl (ProtocolInvariantError ''Sanity check of content-length protocol'')
       \<and> fs (snd (snd (downloadFile P u destFilePath md gz proxy cb st w))) = fs w"
  using assms by (simp add: downloadFile_def truthy_def assert_def Let_def log_debug_def)

lemma unreadable_error_body_propagates:
  assumes "\<And>u init. fetch P u init = Inr res" and "\<not> ok res" and "body_text res = Inl e"
  shows "fst (fetchRelease P releaseTag githubToken proxy w) = Inl e
       \<and> fst (downloadFile P u destFilePath md gz proxy cb st w) = Inl e"
  using assms
  by (simp add: fetchRelease_def downloadFile_def Let_def split: prod.splits)

lemma download_404:
  "fst (download (mem_platform (\<lambda>u init. Inr response_404)) ''0123456789'' tool_opts installed)
     = Inl (Error ''Got response 404 when trying to download a file.'')"
  unfolding download_def tool_paths tool_opts_sel
  by (simp add: downloadFile_def mem_platform_sel truthy_def response_404_sel dec_404 Let_def
      split: prod.splits)

lemma remove_stale_cluttered:
  "remove_stale (mem_platform net) tool_opts cluttered
   = \<lparr>fs = \<lparr>files = [(''/opt/tool/tool'', [9]),
                      (''/opt/tool/tool-stale-aaaaaaaaaa'', [7]),
                      (''/opt/tool/notes.txt'', [5])],
            locked = [''/opt/tool/tool-stale-aaaaaaaaaa'']\<rparr>,
      logged = [(Info, [LStr ''Removed old server binary /opt/tool/tool-stale-0123456789'']),
                (Err, [LStr ''Unable to remove old server binary /opt/tool/tool-stale-aaaaaaaaaa'']),
                (Info, [LStr ''Removed old server binary /opt/tool/not-tool-stale-x''])],
      notifications = []\<rparr>"
  by (simp add: remove_stale_def tool_paths mem_platform_sel mem_readDirectory_def mem_file_def
      cluttered_def Let_def remove_entry_def delete_entry_def mem_joinPath_def mem_delete_def
      without_def log_info_def log_error_def no_permissions_def)

lemma not_displaced: "\<not> displaced_name ''tool'' [] ''not-tool-stale-x''"
proof
  assume "displaced_name ''tool'' [] ''not-tool-stale-x''"
  then obtain token where "length token = 10" "''not-tool-stale-x'' = ''tool'' @ ''-stale-'' @ token @ []"
    by (auto simp: displaced_name_def)
  then show False by simp
qed

section \<open>Results on \<^verbatim>\<open>fetchRelease\<close>, \<^verbatim>\<open>downloadFile\<close> and \<^verbatim>\<open>download\<close>\<close>

text \<open>
  C1. The claim asks that a download whose response has no \<^verbatim>\<open>content-length\<close> header
  fails before any byte is written. The source takes \<^verbatim>\<open>Number(null)\<close>, which is 0 and not
  \<^verbatim>\<open>NaN\<close>, so its assertion passes: on a successful response without the header and
  with a body of three bytes, \<^verbatim>\<open>downloadFile\<close> returns normally, the three bytes are in
  the temporary file, and the only report carries the percentage \<^verbatim>\<open>Infinity\<close>.
\<close>

theorem download_proceeds_without_content_length:
  "headers_get (headers response_without_length) ''content-length'' = None
   \<and> downloadFile (mem_platform (\<lambda>u init. Inr response_without_length)) asset_url
       (mem_file ''/opt/tool/tool0123456789'') (Some 493) False None
       report_progress initial_progress installed
     = (Inr (),
        \<lparr>lastPercentage = Infinity False,
         reported = [\<lparr>percentage = Infinity False, increment = Infinity False\<rparr>]\<rparr>,
        \<lparr>fs = \<lparr>files = [(''/opt/tool/tool0123456789'', [104, 105, 33]), (''/opt/tool/tool'', [9])],
               locked = []\<rparr>,
         logged = [(Debug, [LStr ''Downloading file of'', LNum (Num False 0),
                            LStr ''bytes size from'', LStr ''https://x/tool-linux'',
                            LStr ''to'', LStr ''/opt/tool/tool0123456789''])],
         notifications = []\<rparr>)"
  using headers_none downloadFile_without_length by simp

text \<open>
  C2. The outcome of \<^verbatim>\<open>download\<close> is the outcome of its call of \<^verbatim>\<open>downloadFile\<close>,
  whatever the file system does afterwards: a failure of the download to the
  temporary file reaches the caller, and no failure of the two renames or of the
  cleanup does. A failure of the final rename is logged as an error and nothing else
  happens; so is a failure of the first rename unless its code is \<^verbatim>\<open>FileNotFound\<close> or
  \<^verbatim>\<open>EntryNotFound\<close>, in which case nothing is logged; so is a failure to list the
  directory, and a failure to delete an entry.
\<close>

theorem swap_failures_are_logged_only:
  "fst (download P randomHex opts w)
     = fst (downloadFile P (url opts) (tempFilePath P randomHex opts) (mode opts)
              (gunzip opts = Some True) (httpProxy opts) report_progress initial_progress w)
   \<and> (fs_rename P a b True (fs v) = (Some err, f') \<longrightarrow>
        rename_new P a b v
          = log_error [LStr (''Cannot update server binary: '' @ rendering err)] (v\<lparr>fs := f'\<rparr>))
   \<and> (fs_rename P a b True (fs v) = (Some err, f') \<longrightarrow>
        code err \<noteq> Some ''FileNotFound'' \<longrightarrow> code err \<noteq> Some ''EntryNotFound'' \<longrightarrow>
        rename_old P a b v
          = log_error [LStr (''Cannot rename existing server instance: '' @ rendering err)]
              (v\<lparr>fs := f'\<rparr>))
   \<and> (fs_rename P a b True (fs v) = (Some err, f') \<longrightarrow>
        code err = Some ''FileNotFound'' \<or> code err = Some ''EntryNotFound'' \<longrightarrow>
        rename_old P a b v = v\<lparr>fs := f'\<rparr>)
   \<and> (fs_readDirectory P (Uri_file P (dir (rawDest P opts))) (fs v) = Inl err \<longrightarrow>
        remove_stale P opts v
          = log_error [LStr (''Unable to enumerate contents of '' @
                             fsPath (Uri_file P (dir (rawDest P opts))))] v)
   \<and> (fs_delete P (Uri_joinPath P d entry) (fs v) = (Some err, f') \<longrightarrow>
        delete_entry P d entry v
          = log_error [LStr (''Unable to remove old server binary '' @
                             fsPath (Uri_joinPath P d entry))] (v\<lparr>fs := f'\<rparr>))"
proof -
  have 1: "fst (download P randomHex opts w)
     = fst (downloadFile P (url opts) (tempFilePath P randomHex opts) (mode opts)
              (gunzip opts = Some True) (httpProxy opts) report_progress initial_progress w)"
    by (simp add: download_def Let_def split: prod.splits sum.splits)
  have 2: "fs_rename P a b True (fs v) = (Some err, f') \<longrightarrow>
        rename_new P a b v
          = log_error [LStr (''Cannot update server binary: '' @ rendering err)] (v\<lparr>fs := f'\<rparr>)"
    by (simp add: rename_new_def)
  have 3: "fs_rename P a b True (fs v) = (Some err, f') \<longrightarrow>
        code err \<noteq> Some ''FileNotFound'' \<longrightarrow> code err \<noteq> Some ''EntryNotFound'' \<longrightarrow>
        rename_old P a b v
          = log_error [LStr (''Cannot rename existing server instance: '' @ rendering err)]
              (v\<lparr>fs := f'\<rparr>)"
    by (simp add: rename_old_def)
  have 4: "fs_rename P a b True (fs v) = (Some err, f') \<longrightarrow>
        code err = Some ''FileNotFound'' \<or> code err = Some ''EntryNotFound'' \<longrightarrow>
        rename_old P a b v = v\<lparr>fs := f'\<rparr>"
    by (auto simp: rename_old_def truthy_def)
  have 5: "fs_readDirectory P (Uri_file P (dir (rawDest P opts))) (fs v) = Inl err \<longrightarrow>
        remove_stale P opts v
          = log_error [LStr (''Unable to enumerate contents of '' @
                             fsPath (Uri_file P (dir (rawDest P opts))))] v"
    by (simp add: remove_stale_def Let_def)
  have 6: "fs_delete P (Uri_joinPath P d entry) (fs v) = (Some err, f') \<longrightarrow>
        delete_entry P d entry v
          = log_error [LStr (''Unable to remove old server binary '' @
                             fsPath (Uri_joinPath P d entry))] (v\<lparr>fs := f'\<rparr>)"
    by (simp add: delete_entry_def Let_def)
  from 1 2 3 4 5 6 show ?thesis by (intro conjI)
qed

theorem swap_failures_are_logged_only_witness:
  "fs_rename (mem_platform (\<lambda>u init. Inr response_without_length))
       (mem_file ''/opt/tool/tool0123456789'') (mem_file ''/opt/tool/tool'') True (fs in_use)
     = (Some no_permissions, fs in_use)
   \<and> rename_new (mem_platform (\<lambda>u init. Inr response_without_length))
       (mem_file ''/opt/tool/tool0123456789'') (mem_file ''/opt/tool/tool'') in_use
     = log_error [LStr ''Cannot update server binary: NoPermissions (FileSystemError)''] in_use
   \<and> fst (downloadFile (mem_platform (\<lambda>u init. Inr response_without_length)) (url tool_opts)
            (tempFilePath (mem_platform (\<lambda>u init. Inr response_without_length)) ''0123456789'' tool_opts)
            (mode tool_opts) (gunzip tool_opts = Some True) (httpProxy tool_opts)
            report_progress initial_progress in_use) = Inr ()
   \<and> download (mem_platform (\<lambda>u init. Inr response_without_length)) ''0123456789'' tool_opts in_use
     = (Inr (),
        \<lparr>fs = \<lparr>files = [(''/opt/tool/tool0123456789'', [104, 105, 33]), (''/opt/tool/tool'', [9])],
               locked = [''/opt/tool/tool'']\<rparr>,
         logged = [(Debug, [LStr ''Downloading file of'', LNum (Num False 0),
                            LStr ''bytes size from'', LStr ''https://x/tool-linux'',
                            LStr ''to'', LStr ''/opt/tool/tool0123456789'']),
                   (Err, [LStr ''Cannot rename existing server instance: NoPermissions (FileSystemError)'']),
                   (Err, [LStr ''Cannot update server binary: NoPermissions (FileSystemError)''])],
         notifications = [(''Downloading'',
            [\<lparr>percentage = Infinity False, increment = Infinity False\<rparr>])]\<rparr>)
   \<and> fst (download (mem_platform (\<lambda>u init. Inr response_404)) ''0123456789'' tool_opts installed)
     = Inl (Error ''Got response 404 when trying to download a file.'')"
proof -
  let ?P = "mem_platform (\<lambda>u init. Inr response_without_length) :: (files_state, unit) platform"
  have r: "fs_rename ?P (mem_file ''/opt/tool/tool0123456789'') (mem_file ''/opt/tool/tool'')
      True (fs in_use) = (Some no_permissions, fs in_use)"
    by (simp add: mem_platform_sel mem_rename_def in_use_def mem_file_def)
  have n: "rename_new ?P (mem_file ''/opt/tool/tool0123456789'') (mem_file ''/opt/tool/tool'') in_use
     = log_error [LStr ''Cannot update server binary: NoPermissions (FileSystemError)''] in_use"
    using swap_failures_are_logged_only [of ?P "''0123456789''" tool_opts in_use
        "mem_file ''/opt/tool/tool0123456789''" "mem_file ''/opt/tool/tool''" in_use
        no_permissions "fs in_use"] r
    by (simp add: no_permissions_def)
  have d: "fst (downloadFile ?P (url tool_opts) (tempFilePath ?P ''0123456789'' tool_opts)
            (mode tool_opts) (gunzip tool_opts = Some True) (httpProxy tool_opts)
            report_progress initial_progress in_use) = Inr ()"
    by (simp add: tool_paths tool_opts_sel download_stage_in_use)
  from r n d download_in_use download_404 show ?thesis by (intro conjI)
qed





text \<open>
  C8, as the specification states it, fails. For the destination \<^verbatim>\<open>/opt/tool/tool\<close> the
  entry \<^verbatim>\<open>not-tool-stale-x\<close> of the directory is not the name of a displaced artifact of
  that destination (it does not start with the base name and has no token of ten
  digits), and the cleanup deletes it.
\<close>

theorem cleanup_selects_other_names_counterexample:
  "str_includes ''not-tool-stale-x''
       (name (rawDest (mem_platform (\<lambda>u init. Inr response_404)) tool_opts) @ ''-stale-'')
   \<and> \<not> displaced_name (name (rawDest (mem_platform (\<lambda>u init. Inr response_404)) tool_opts))
         (ext (rawDest (mem_platform (\<lambda>u init. Inr response_404)) tool_opts)) ''not-tool-stale-x''
   \<and> map_of (files (fs cluttered)) ''/opt/tool/not-tool-stale-x'' = Some [6]
   \<and> map_of (files (fs (remove_stale (mem_platform (\<lambda>u init. Inr response_404)) tool_opts
         cluttered))) ''/opt/tool/not-tool-stale-x'' = None"
  using not_displaced
  by (simp add: tool_paths remove_stale_cluttered) (simp add: cluttered_def)

text \<open>
  C8, amended. The cleanup attempts the deletion of exactly the entries whose name
  contains the text \<open>stem-stale-\<close> somewhere, in the order of the listing, where
  \<open>stem\<close> is the name of the destination without its extension. Every name of a
  displaced artifact of the destination is among them. Each attempt, successful or
  not, adds one record to the log and the pass goes on to the next entry; when the
  directory cannot be listed, the pass logs one error and ends normally.
\<close>

theorem cleanup_selects_by_substring:
  "remove_entries P d stem entries w
     = foldl (\<lambda>v e. delete_entry P d e v) w
         (filter (\<lambda>e. str_includes e (stem @ ''-stale-'')) (map fst entries))
   \<and> (str_includes e (stem @ ''-stale-'') = (\<exists>xs ys. e = xs @ stem @ ''-stale-'' @ ys))
   \<and> (displaced_name stem extension e \<longrightarrow> str_includes e (stem @ ''-stale-''))
   \<and> length (logged (delete_entry P d e v)) = Suc (length (logged v))
   \<and> (fs_readDirectory P (Uri_file P (dir (rawDest P opts))) (fs v) = Inr entries \<longrightarrow>
        remove_stale P opts v
          = remove_entries P (Uri_file P (dir (rawDest P opts))) (name (rawDest P opts)) entries v)
   \<and> (fs_readDirectory P (Uri_file P (dir (rawDest P opts))) (fs v) = Inl err \<longrightarrow>
        remove_stale P opts v
          = log_error [LStr (''Unable to enumerate contents of '' @
                             fsPath (Uri_file P (dir (rawDest P opts))))] v)"
proof -
  have 2: "str_includes e (stem @ ''-stale-'') = (\<exists>xs ys. e = xs @ stem @ ''-stale-'' @ ys)"
    using str_includes_iff [of e "stem @ ''-stale-''"] by simp
  have 3: "displaced_name stem extension e \<longrightarrow> str_includes e (stem @ ''-stale-'')"
    using displaced_name_included by blast
  have 5: "fs_readDirectory P (Uri_file P (dir (rawDest P opts))) (fs v) = Inr entries \<longrightarrow>
        remove_stale P opts v
          = remove_entries P (Uri_file P (dir (rawDest P opts))) (name (rawDest P opts)) entries v"
    by (simp add: remove_stale_def Let_def)
  have 6: "fs_readDirectory P (Uri_file P (dir (rawDest P opts))) (fs v) = Inl err \<longrightarrow>
        remove_stale P opts v
          = log_error [LStr (''Unable to enumerate contents of '' @
                             fsPath (Uri_file P (dir (rawDest P opts))))] v"
    by (simp add: remove_stale_def Let_def)
  from remove_entries_filter [of P d stem entries w] 2 3 delete_entry_logs_once [of P d e v] 5 6
  show ?thesis by (intro conjI)
qed

theorem cleanup_selects_by_substring_witness:
  "displaced_name ''tool'' [] ''tool-stale-0123456789''
   \<and> str_includes ''tool-stale-0123456789'' (''tool'' @ ''-stale-'')
   \<and> fs_readDirectory (mem_platform (\<lambda>u init. Inr response_404))
       (Uri_file (mem_platform (\<lambda>u init. Inr response_404))
          (dir (rawDest (mem_platform (\<lambda>u init. Inr response_404)) tool_opts))) (fs cluttered)
     = Inr [(''tool'', 1), (''tool-stale-0123456789'', 1), (''tool-stale-aaaaaaaaaa'', 1),
            (''not-tool-stale-x'', 1), (''notes.txt'', 1)]
   \<and> fs_readDirectory (mem_platform (\<lambda>u init. Inr response_404))
       (Uri_file (mem_platform (\<lambda>u init. Inr response_404))
          (dir (rawDest (mem_platform (\<lambda>u init. Inr response_404)) tool_opts)))
       (fs (cluttered\<lparr>fs := \<lparr>files = [], locked = [''/opt/tool'']\<rparr>\<rparr>))
     = Inl no_permissions
   \<and> remove_stale (mem_platform (\<lambda>u init. Inr response_404)) tool_opts
       (cluttered\<lparr>fs := \<lparr>files = [], locked = [''/opt/tool'']\<rparr>\<rparr>)
     = log_error [LStr ''Unable to enumerate contents of /opt/tool'']
         (cluttered\<lparr>fs := \<lparr>files = [], locked = [''/opt/tool'']\<rparr>\<rparr>)
   \<and> remove_stale (mem_platform (\<lambda>u init. Inr response_404)) tool_opts cluttered
     = \<lparr>fs = \<lparr>files = [(''/opt/tool/tool'', [9]),
                      (''/opt/tool/tool-stale-aaaaaaaaaa'', [7]),
                      (''/opt/tool/notes.txt'', [5])],
            locked = [''/opt/tool/tool-stale-aaaaaaaaaa'']\<rparr>,
      logged = [(Info, [LStr ''Removed old server binary /opt/tool/tool-stale-0123456789'']),
                (Err, [LStr ''Unable to remove old server binary /opt/tool/tool-stale-aaaaaaaaaa'']),
                (Info, [LStr ''Removed old server binary /opt/tool/not-tool-stale-x''])],
      notifications = []\<rparr>"
proof -
  let ?P = "mem_platform (\<lambda>u init. Inr response_404) :: (files_state, unit) platform"
  let ?w = "cluttered\<lparr>fs := \<lparr>files = [], locked = [''/opt/tool'']\<rparr>\<rparr>"
  have "''tool-stale-0123456789'' = ''tool'' @ ''-stale-'' @ ''0123456789'' @ []
      \<and> length ''0123456789'' = 10 \<and> list_all is_hex_digit ''0123456789''"
    by (simp add: is_hex_digit_def)
  then have 1: "displaced_name ''tool'' [] ''tool-stale-0123456789''"
    unfolding displaced_name_def by blast
  have 3: "fs_readDirectory ?P (Uri_file ?P (dir (rawDest ?P tool_opts))) (fs cluttered)
     = Inr [(''tool'', 1), (''tool-stale-0123456789'', 1), (''tool-stale-aaaaaaaaaa'', 1),
            (''not-tool-stale-x'', 1), (''notes.txt'', 1)]"
    by (simp add: tool_paths mem_platform_sel mem_readDirectory_def mem_file_def cluttered_def Let_def)
  have 4: "fs_readDirectory ?P (Uri_file ?P (dir (rawDest ?P tool_opts))) (fs ?w) = Inl no_permissions"
    by (simp add: tool_paths mem_platform_sel mem_readDirectory_def mem_file_def)
  note t = cleanup_selects_by_substring [of ?P "mem_file ''/opt/tool''" "''tool''" "[]" ?w
      "''tool-stale-0123456789''" "[]" ?w tool_opts no_permissions]
  from t 1 have 2: "str_includes ''tool-stale-0123456789'' (''tool'' @ ''-stale-'')" by blast
  from t 4 have 5: "remove_stale ?P tool_opts ?w
     = log_error [LStr ''Unable to enumerate contents of /opt/tool''] ?w"
    by (simp add: tool_paths mem_platform_sel mem_file_def)
  from 1 2 3 4 5 remove_stale_cluttered [of "\<lambda>u init. Inr response_404"]
  show ?thesis by (intro conjI)
qed



end
